(* ===== verification/Xkey_Prelude.thy ===== *)
theory Xkey_Prelude
  imports Main "HOL-Library.Word"
begin

text \<open>
  Types, byte-level standard-library functions and generic list lemmas that every theory of
  the development shares. A Rust \<open>u8\<close> is an 8-bit word, a byte slice a list of them, \<open>usize\<close>
  and \<open>u64\<close> are 64-bit words (the module is modelled on a 64-bit target). The functions here are
  the ones of Rust's standard library that the source calls on byte slices: \<open>split\<close>,
  \<open>position\<close>, \<open>eq_ignore_ascii_case\<close>, \<open>is_ascii_whitespace\<close>, slice comparison and
  \<open>from_utf8\<close>.
\<close>

unbundle bit_operations_syntax

section \<open>Types and literals\<close>

type_synonym u8 = "8 word"
type_synonym bytes = "u8 list"
type_synonym usize = "64 word"
type_synonym u64 = "64 word"

text \<open>A byte literal \<open>b'c'\<close> and a byte string literal \<open>b"abc"\<close> of the source.\<close>

abbreviation byte :: "char \<Rightarrow> u8" where
  "byte c \<equiv> of_char c"

definition bytes_of :: "string \<Rightarrow> bytes" where
  "bytes_of s = map of_char s"

lemma bytes_of_simps [simp]:
  "bytes_of [] = []"
  "bytes_of (c # cs) = byte c # bytes_of cs"
  by (simp_all add: bytes_of_def)

lemma length_bytes_of [simp]: "length (bytes_of s) = length s"
  by (simp add: bytes_of_def)

section \<open>Standard-library functions on byte slices\<close>

definition is_ascii_whitespace :: "u8 \<Rightarrow> bool" where
  "is_ascii_whitespace c \<longleftrightarrow> c = 32 \<or> c = 9 \<or> c = 10 \<or> c = 12 \<or> c = 13"

definition to_ascii_lowercase :: "u8 \<Rightarrow> u8" where
  "to_ascii_lowercase c = (if 65 \<le> c \<and> c \<le> 90 then c + 32 else c)"

definition eq_ignore_ascii_case :: "bytes \<Rightarrow> bytes \<Rightarrow> bool" where
  "eq_ignore_ascii_case a b \<longleftrightarrow> map to_ascii_lowercase a = map to_ascii_lowercase b"

lemma eq_ignore_ascii_case_refl [simp]: "eq_ignore_ascii_case a a"
  by (simp add: eq_ignore_ascii_case_def)

lemma eq_ignore_ascii_case_sym: "eq_ignore_ascii_case a b = eq_ignore_ascii_case b a"
  by (auto simp: eq_ignore_ascii_case_def)

text \<open>\<open>slice::split\<close>: one segment more than there are separators.\<close>

fun split_on :: "('a \<Rightarrow> bool) \<Rightarrow> 'a list \<Rightarrow> 'a list list" where
  "split_on p [] = [[]]"
| "split_on p (x # xs) =
     (if p x then [] # split_on p xs
      else (case split_on p xs of [] \<Rightarrow> [[x]] | s # ss \<Rightarrow> (x # s) # ss))"

text \<open>\<open>Iterator::position\<close>: the index of the first element that satisfies the predicate.\<close>

fun position :: "('a \<Rightarrow> bool) \<Rightarrow> 'a list \<Rightarrow> nat option" where
  "position p [] = None"
| "position p (x # xs) = (if p x then Some 0 else map_option Suc (position p xs))"

text \<open>\<open>Ord::cmp\<close> on byte slices: lexicographic.\<close>

datatype ordering = Less | Equal | Greater

fun slice_cmp :: "bytes \<Rightarrow> bytes \<Rightarrow> ordering" where
  "slice_cmp [] [] = Equal"
| "slice_cmp [] (b # bs) = Less"
| "slice_cmp (a # as) [] = Greater"
| "slice_cmp (a # as) (b # bs) =
     (if a < b then Less else if b < a then Greater else slice_cmp as bs)"

text \<open>\<open>core::str::from_utf8\<close>: the well-formed byte sequences of the Unicode standard.\<close>

definition utf8_tail :: "u8 \<Rightarrow> bool" where
  "utf8_tail c \<longleftrightarrow> 128 \<le> c \<and> c \<le> 191"

fun utf8_valid :: "bytes \<Rightarrow> bool" where
  "utf8_valid [] \<longleftrightarrow> True"
| "utf8_valid (a # s) \<longleftrightarrow>
     (if a < 128 then utf8_valid s
      else if 194 \<le> a \<and> a \<le> 223 then
        (case s of b # s' \<Rightarrow> utf8_tail b \<and> utf8_valid s' | _ \<Rightarrow> False)
      else if 224 \<le> a \<and> a \<le> 239 then
        (case s of b # c # s' \<Rightarrow>
           utf8_tail b \<and> (a = 224 \<longrightarrow> 160 \<le> b) \<and> (a = 237 \<longrightarrow> b \<le> 159) \<and> utf8_tail c
           \<and> utf8_valid s' | _ \<Rightarrow> False)
      else if 240 \<le> a \<and> a \<le> 244 then
        (case s of b # c # d # s' \<Rightarrow>
           utf8_tail b \<and> (a = 240 \<longrightarrow> 144 \<le> b) \<and> (a = 244 \<longrightarrow> b \<le> 143) \<and> utf8_tail c
           \<and> utf8_tail d \<and> utf8_valid s' | _ \<Rightarrow> False)
      else False)"

section \<open>Generic lemmas\<close>

lemma utf8_valid_ascii: "\<forall>c\<in>set s. c < 128 \<Longrightarrow> utf8_valid s"
  by (induction s) auto

named_theorems split_facts \<open>facts on splitting a list at separators\<close>

lemma split_on_not_Nil [simp]: "split_on p xs \<noteq> []"
  by (induction xs) (auto split: list.splits)

lemma split_on_append_sep [split_facts]:
  "p x \<Longrightarrow> split_on p (xs @ x # ys) = split_on p xs @ split_on p ys"
  by (induction xs) (auto split: list.splits)

lemma split_on_id [split_facts]: "\<forall>x\<in>set xs. \<not> p x \<Longrightarrow> split_on p xs = [xs]"
  by (induction xs) auto

lemma split_on_no_sep: "s \<in> set (split_on p xs) \<Longrightarrow> x \<in> set s \<Longrightarrow> \<not> p x"
  by (induction xs arbitrary: s) (fastforce split: if_splits list.splits)+

lemma concat_split_on [split_facts]: "concat (split_on p xs) = filter (\<lambda>x. \<not> p x) xs"
proof (induction xs)
  case (Cons x xs)
  then show ?case by (cases "split_on p xs") auto
qed simp

lemma length_split_on: "length (split_on p xs) = Suc (length (filter p xs))"
  by (induction xs) (auto split: list.splits)

lemma split_on_infix: "s \<in> set (split_on p xs) \<Longrightarrow> \<exists>us vs. xs = us @ s @ vs"
proof (induction xs arbitrary: s)
  case (Cons x xs)
  obtain s1 ss where ss: "split_on p xs = s1 # ss"
    by (cases "split_on p xs") auto
  have s1: "take (length s1) xs = s1" if "\<not> p x"
    using ss
  proof (induction xs arbitrary: s1 ss)
    case (Cons y ys)
    then show ?case by (auto split: if_splits list.splits)
  qed simp
  show ?case
  proof (cases "\<not> p x \<and> s = x # s1")
    case True
    then have "x # xs = [] @ s @ drop (length s1) xs"
      using s1 append_take_drop_id [of "length s1" xs] by simp
    then show ?thesis by blast
  next
    case False
    then have "s = [] \<or> s \<in> set (split_on p xs)"
      using Cons.prems ss by (auto split: if_splits)
    then show ?thesis
    proof
      assume "s = []"
      then have "x # xs = [] @ s @ (x # xs)" by simp
      then show ?thesis by blast
    next
      assume "s \<in> set (split_on p xs)"
      then obtain us vs where "xs = us @ s @ vs" using Cons.IH by blast
      then have "x # xs = (x # us) @ s @ vs" by simp
      then show ?thesis by blast
    qed
  qed
qed simp

lemma position_SomeD:
  "position p xs = Some i \<Longrightarrow> i < length xs \<and> p (xs ! i) \<and> (\<forall>j<i. \<not> p (xs ! j))"
  by (induction xs arbitrary: i) (auto simp: less_Suc_eq_0_disj split: if_splits)

lemma position_append_first:
  "\<forall>x\<in>set xs. \<not> p x \<Longrightarrow> p y \<Longrightarrow> position p (xs @ y # ys) = Some (length xs)"
  by (induction xs) auto

lemma position_None [simp]: "position p xs = None \<longleftrightarrow> (\<forall>x\<in>set xs. \<not> p x)"
  by (induction xs) auto

lemma slice_cmp_Equal [simp]: "slice_cmp a b = Equal \<longleftrightarrow> a = b"
  by (induction a b rule: slice_cmp.induct) auto

lemma slice_cmp_Less: "slice_cmp a b = Less \<longleftrightarrow> slice_cmp b a = Greater"
  by (induction a b rule: slice_cmp.induct) auto

lemma slice_cmp_Less_trans:
  "slice_cmp a b = Less \<Longrightarrow> slice_cmp b c = Less \<Longrightarrow> slice_cmp a c = Less"
proof (induction a b arbitrary: c rule: slice_cmp.induct)
  case (2 b bs)
  then show ?case by (cases c) auto
next
  case (4 a as b bs)
  then show ?case by (cases c) (auto split: if_splits)
qed auto

end
