(* ===== verification/Xkey_Key.thy ===== *)
theory Xkey_Key
  imports Xkey_Prelude
begin

text \<open>
  The cache key and its split into the integer key and the remainder NGINX keeps in an rbtree
  node (\<open>node_key\<close>, \<open>node_key_rest\<close> of \<open>xkey-core/src/lib.rs\<close>). The byte order of the target
  is a parameter, since \<open>usize::from_ne_bytes\<close> reads in native order; a \<open>usize\<close> has 8 bytes.
  The lemmas show that the two parts identify the key and that they order keys linearly,
  which is what a search in the tree relies on.
\<close>

type_synonym cache_key = bytes

definition CACHE_KEY_LEN :: nat where
  "CACHE_KEY_LEN = 16"

text \<open>A cache key is an array \<open>[u8; CACHE_KEY_LEN]\<close>.\<close>

definition key_ok :: "cache_key \<Rightarrow> bool" where
  "key_ok key \<longleftrightarrow> length key = CACHE_KEY_LEN"

text \<open>\<open>size_of::<usize>()\<close> on the 64-bit target.\<close>

definition USIZE_BYTES :: nat where
  "USIZE_BYTES = 8"

datatype endian = Little | Big

definition from_ne_bytes :: "endian \<Rightarrow> bytes \<Rightarrow> usize" where
  "from_ne_bytes e bs = (case e of Big \<Rightarrow> word_rcat bs | Little \<Rightarrow> word_rcat (rev bs))"

definition node_key :: "endian \<Rightarrow> cache_key \<Rightarrow> usize" where
  "node_key e key = (let prefix = USIZE_BYTES in from_ne_bytes e (take prefix key))"

definition node_key_rest :: "cache_key \<Rightarrow> bytes" where
  "node_key_rest key = drop USIZE_BYTES key"

lemma horner_bounds: "0 \<le> horner_sum uint (256::int) (bs :: bytes) \<and> horner_sum uint 256 bs < 256 ^ length bs"
proof (induction bs)
  case (Cons b bs)
  have "0 \<le> uint b" "uint b < 256" using uint_bounded [of b] by simp_all
  with Cons show ?case by simp
qed simp

lemma horner_inj:
  "length as = length bs \<Longrightarrow> horner_sum uint (256::int) (as :: bytes) = horner_sum uint 256 bs \<Longrightarrow> as = bs"
proof (induction as bs rule: list_induct2)
  case (Cons a as b bs)
  have u: "0 \<le> uint x \<and> uint x < 256" for x :: u8 using uint_bounded [of x] by simp
  let ?A = "horner_sum uint (256::int) as" and ?B = "horner_sum uint (256::int) bs"
  have eq: "uint a + ?A * 256 = uint b + ?B * 256" using Cons.prems by (simp add: mult.commute)
  have "(uint a + ?A * 256) mod 256 = (uint b + ?B * 256) mod 256" by (simp only: eq)
  then have "uint a = uint b" using u [of a] u [of b] by simp
  with eq Cons.IH show ?case by (simp add: word_uint_eq_iff)
qed simp

lemma word_rcat_inj:
  assumes "length as = 8" "length bs = 8" "(word_rcat (as :: bytes) :: usize) = word_rcat bs"
  shows "as = bs"
proof -
  have u: "uint (word_rcat xs :: usize) = horner_sum uint (256::int) (rev xs)"
    if "length xs = 8" for xs :: bytes
    using horner_bounds [of "rev xs"] that
    by (simp add: word_rcat_def uint_word_of_int_eq take_bit_int_eq_self_iff)
  have "horner_sum uint (256::int) (rev as) = horner_sum uint 256 (rev bs)"
    using u [OF assms(1)] u [OF assms(2)] assms(3) by metis
  then show ?thesis using horner_inj [of "rev as" "rev bs"] assms by simp
qed

lemma from_ne_bytes_inj:
  "length as = 8 \<Longrightarrow> length bs = 8 \<Longrightarrow> from_ne_bytes e as = from_ne_bytes e bs \<Longrightarrow> as = bs"
  using word_rcat_inj [of as bs] word_rcat_inj [of "rev as" "rev bs"]
  by (auto simp: from_ne_bytes_def split: endian.splits)

lemma length_node_key_rest [simp]: "key_ok key \<Longrightarrow> length (node_key_rest key) = 8"
  by (simp add: key_ok_def node_key_rest_def CACHE_KEY_LEN_def USIZE_BYTES_def)

lemma node_key_inj:
  assumes "key_ok a" "key_ok b"
    and "node_key e a = node_key e b" "node_key_rest a = node_key_rest b"
  shows "a = b"
proof -
  have "take 8 a = take 8 b"
    using assms(1-3) from_ne_bytes_inj [of "take 8 a" "take 8 b" e]
    by (simp add: node_key_def Let_def key_ok_def CACHE_KEY_LEN_def USIZE_BYTES_def)
  then show ?thesis
    using assms(4) by (metis USIZE_BYTES_def append_take_drop_id node_key_rest_def)
qed

section \<open>The order of the cache tree\<close>

text \<open>
  The comparison the search makes at a node: integer keys first, the remainder bytewise when
  they are equal. \<open>nkey\<close> is a node's pair of fields.
\<close>

type_synonym nkey = "usize \<times> bytes"

definition nkey_of :: "endian \<Rightarrow> cache_key \<Rightarrow> nkey" where
  "nkey_of e key = (node_key e key, node_key_rest key)"

definition nkey_less :: "nkey \<Rightarrow> nkey \<Rightarrow> bool" where
  "nkey_less a b \<longleftrightarrow> fst a < fst b \<or> fst a = fst b \<and> slice_cmp (snd a) (snd b) = Less"

lemma nkey_less_irrefl [simp]: "\<not> nkey_less a a"
proof -
  have "slice_cmp s s \<noteq> Less" for s by (induction s) auto
  then show ?thesis by (simp add: nkey_less_def)
qed

lemma nkey_less_trans: "nkey_less a b \<Longrightarrow> nkey_less b c \<Longrightarrow> nkey_less a c"
  by (auto simp: nkey_less_def dest: slice_cmp_Less_trans)

lemma nkey_less_linear: "nkey_less a b \<or> a = b \<or> nkey_less b a"
proof (cases "slice_cmp (snd a) (snd b)")
  case Greater
  then have "slice_cmp (snd b) (snd a) = Less" by (simp add: slice_cmp_Less)
  then show ?thesis by (auto simp: nkey_less_def)
qed (auto simp: nkey_less_def prod_eq_iff)

lemma nkey_of_inj: "key_ok a \<Longrightarrow> key_ok b \<Longrightarrow> nkey_of e a = nkey_of e b \<Longrightarrow> a = b"
  by (auto simp: nkey_of_def dest: node_key_inj)

end
