(* ===== verification/Ngx_Containers.thy ===== *)
theory Ngx_Containers
  imports Xkey_Key
begin

text \<open>
  The containers the tag index is built from are not part of the repository: the slab
  allocator, \<open>NgxString\<close>, \<open>Vec\<close> and \<open>RbTreeMap\<close> come from the \<open>ngx\<close> crate, the queue macros
  from NGINX. They are parameters of the model: a record of operations over abstract types of
  allocator states \<open>'a\<close>, maps \<open>'m\<close> and queue links \<open>'q\<close>. What the code relies on is stated
  as three locales, one per container, and \<open>ngx_env\<close> joins them.
\<close>

section \<open>Data shared with the containers\<close>

type_synonym addr = nat

text \<open>
  A pointer to a queue link: null, the head inside the index, or the link that is the first
  field of the entry at an address (so that casting the link gives the entry).
\<close>

datatype link = Null | Head | Link addr

text \<open>A \<open>Vec<CacheKey, SlabPool>\<close>: its elements and its capacity.\<close>

record key_vec =
  items :: "cache_key list"
  capacity :: nat

text \<open>NGINX's return codes.\<close>

definition NGX_OK :: int where
  "NGX_OK = 0"

definition NGX_ERROR :: int where
  "NGX_ERROR = -1"

definition new_vec :: key_vec where
  "new_vec = \<lparr>items = [], capacity = 0\<rparr>"

section \<open>The operations\<close>

text \<open>
  A fallible allocation returns whether it succeeded and the allocator's next state.
  \<^item> \<open>string_try_from\<close>, \<open>string_drop\<close>: \<open>NgxString::try_from_bytes_in\<close> and its drop;
  \<^item> \<open>vec_try_reserve\<close>, \<open>vec_drop\<close>: \<open>Vec::try_reserve(1)\<close> and drop;
  \<^item> \<open>map_try_new\<close>, \<open>map_get\<close>, \<open>map_try_insert\<close>, \<open>map_remove\<close>: the \<open>RbTreeMap\<close> calls. A map
    takes a tag to the address of its entry; inserting places the entry and drops what it was
    given when it fails, removing gives the address the entry is moved out of;
  \<^item> \<open>map_drop\<close>, \<open>alloc_shared\<close>: dropping a map, and \<open>ngx::allocator::allocate\<close> for the index;
  \<^item> \<open>queue_zeroed\<close>, \<open>queue_init\<close>, \<open>queue_insert_after\<close>, \<open>queue_remove\<close>, \<open>queue_prev\<close>: the
    links of the index head and of all entries.
\<close>

record ('a, 'm, 'q) ngx =
  string_try_from :: "bytes \<Rightarrow> 'a \<Rightarrow> bool \<times> 'a"
  string_drop :: "bytes \<Rightarrow> 'a \<Rightarrow> 'a"
  vec_try_reserve :: "key_vec \<Rightarrow> 'a \<Rightarrow> key_vec option \<times> 'a"
  vec_drop :: "key_vec \<Rightarrow> 'a \<Rightarrow> 'a"
  map_try_new :: "'a \<Rightarrow> 'm option \<times> 'a"
  map_get :: "'m \<Rightarrow> bytes \<Rightarrow> addr option"
  map_try_insert :: "'m \<Rightarrow> bytes \<Rightarrow> 'a \<Rightarrow> (addr \<times> 'm) option \<times> 'a"
  map_remove :: "'m \<Rightarrow> bytes \<Rightarrow> 'a \<Rightarrow> (addr \<times> 'm \<times> 'a) option"
  map_drop :: "'m \<Rightarrow> 'a \<Rightarrow> 'a"
  alloc_shared :: "'a \<Rightarrow> bool \<times> 'a"
  queue_zeroed :: 'q
  queue_init :: "'q \<Rightarrow> 'q"
  queue_insert_after :: "'q \<Rightarrow> link \<Rightarrow> link \<Rightarrow> 'q"
  queue_remove :: "'q \<Rightarrow> link \<Rightarrow> 'q"
  queue_prev :: "'q \<Rightarrow> link \<Rightarrow> link"

section \<open>The laws\<close>

text \<open>
  The queue: \<open>ring q ps\<close> says that following the links from the head meets the entries
  \<open>ps\<close> in order and returns to the head.
\<close>

locale queue_env =
  fixes N :: "('a, 'm, 'q) ngx"
    and ring :: "'q \<Rightarrow> addr list \<Rightarrow> bool"
  assumes ring_init: "ring (queue_init N q) []"
    and ring_insert_after:
      "ring q ps \<Longrightarrow> p \<notin> set ps \<Longrightarrow> ring (queue_insert_after N q Head (Link p)) (p # ps)"
    and ring_remove:
      "ring q ps \<Longrightarrow> distinct ps \<Longrightarrow> p \<in> set ps \<Longrightarrow> ring (queue_remove N q (Link p)) (remove1 p ps)"
    and ring_prev:
      "ring q ps \<Longrightarrow> queue_prev N q Head = (if ps = [] then Head else Link (last ps))"
begin

lemma ring_touch:
  assumes "ring q ps" "distinct ps" "p \<in> set ps"
  shows "ring (queue_insert_after N (queue_remove N q (Link p)) Head (Link p)) (p # remove1 p ps)"
  using assms by (intro ring_insert_after ring_remove) simp_all

lemma ring_remove_last:
  assumes "ring q ps" "distinct ps" "ps \<noteq> []"
  shows "ring (queue_remove N q (Link (last ps))) (butlast ps)"
proof -
  have ps: "ps = butlast ps @ [last ps]" using assms(3) by simp
  then have "last ps \<notin> set (butlast ps)"
    using assms(2) by (metis distinct_append disjoint_iff list.set_intros(1))
  then have "remove1 (last ps) ps = butlast ps"
    by (subst (2) ps) (simp add: remove1_append)
  then show ?thesis using ring_remove [OF assms(1,2), of "last ps"] assms(3) by simp
qed

end

text \<open>
  The map: a dictionary from tags to addresses that places a new entry at an address no
  present entry occupies, and never moves an entry.
\<close>

locale map_env =
  fixes N :: "('a, 'm, 'q) ngx"
    and map_ok :: "'m \<Rightarrow> bool"
  assumes map_new: "map_try_new N a = (Some m, a') \<Longrightarrow> map_ok m \<and> map_get N m = Map.empty"
    and map_insert:
      "map_ok m \<Longrightarrow> map_get N m k = None \<Longrightarrow> map_try_insert N m k a = (Some (p, m'), a') \<Longrightarrow>
       map_ok m' \<and> p \<notin> ran (map_get N m) \<and> map_get N m' = (map_get N m)(k \<mapsto> p)"
    and map_remove_absent: "map_ok m \<Longrightarrow> map_get N m k = None \<Longrightarrow> map_remove N m k a = None"
    and map_remove_present:
      "map_ok m \<Longrightarrow> map_get N m k = Some p \<Longrightarrow>
       \<exists>m' a'. map_remove N m k a = Some (p, m', a') \<and> map_ok m'
         \<and> map_get N m' = (map_get N m)(k := None)"

text \<open>
  The vector: reserving keeps the elements and leaves room for one more; with room already
  there it does nothing.
\<close>

locale vec_env =
  fixes N :: "('a, 'm, 'q) ngx"
  assumes reserve_ok:
      "vec_try_reserve N v a = (Some v', a') \<Longrightarrow> items v' = items v \<and> length (items v) < capacity v'"
    and reserve_room: "length (items v) < capacity v \<Longrightarrow> vec_try_reserve N v a = (Some v, a)"

locale ngx_env = queue_env N ring + map_env N map_ok + vec_env N
  for N :: "('a, 'm, 'q) ngx"
    and ring :: "'q \<Rightarrow> addr list \<Rightarrow> bool"
    and map_ok :: "'m \<Rightarrow> bool"

end
