(* ===== verification/Xkey_Text.thy ===== *)
theory Xkey_Text
  imports Xkey_Prelude
begin

text \<open>
  The text half of \<open>xkey-core/src/lib.rs\<close>: how a tag header is split into tags
  (\<open>split_tags\<close>), how a slice is trimmed (\<open>trim\<close>) and how a header is found in the raw
  response header block NGINX stores in a cache file (\<open>find_header\<close>, \<open>block_has_tag\<close>).
  The lemmas characterise the tags of a value, show that splitting undoes joining, and give
  the header search on a rendered block.
\<close>

section \<open>Definitions\<close>

text \<open>The longest tag accepted on a purge request.\<close>

definition MAX_TAG_LEN :: nat where
  "MAX_TAG_LEN = 1024"

definition is_tag_separator :: "u8 \<Rightarrow> bool" where
  "is_tag_separator c \<longleftrightarrow> c = byte CHR '' '' \<or> c = 9 \<or> c = byte CHR '','' \<or> c = 13 \<or> c = 10"

definition split_tags :: "bytes \<Rightarrow> bytes list" where
  "split_tags value = filter (\<lambda>tag. tag \<noteq> []) (split_on is_tag_separator value)"

text \<open>The two loops of \<open>trim\<close>: leading whitespace first, then trailing.\<close>

fun trim_front :: "bytes \<Rightarrow> bytes" where
  "trim_front [] = []"
| "trim_front (first # rest) =
     (if is_ascii_whitespace first then trim_front rest else first # rest)"

fun trim_back :: "bytes \<Rightarrow> bytes" where
  "trim_back s =
     (if s = [] then []
      else if is_ascii_whitespace (last s) then trim_back (butlast s) else s)"

declare trim_back.simps [simp del]

definition trim :: "bytes \<Rightarrow> bytes" where
  "trim s = trim_back (trim_front s)"

fun find_header_lines :: "bytes list \<Rightarrow> bytes \<Rightarrow> bytes option" where
  "find_header_lines [] name = None"
| "find_header_lines (raw # ls) name =
     (let line = trim raw in
      case position (\<lambda>c. c = byte CHR '':'') line of
        None \<Rightarrow> find_header_lines ls name
      | Some colon \<Rightarrow>
          (let found = take colon line; value = drop colon line in
           if eq_ignore_ascii_case found name then Some (trim (drop 1 value))
           else find_header_lines ls name))"

declare find_header_lines.simps(2) [simp del]

definition find_header :: "bytes \<Rightarrow> bytes \<Rightarrow> bytes option" where
  "find_header block name = find_header_lines (split_on (\<lambda>c. c = 10) block) name"

definition block_has_tag :: "bytes \<Rightarrow> bytes \<Rightarrow> bytes \<Rightarrow> bool" where
  "block_has_tag block name tag =
     (case find_header block name of
        Some value \<Rightarrow> list_ex (\<lambda>t. t = tag) (split_tags value)
      | None \<Rightarrow> False)"

section \<open>Splitting\<close>

lemma split_tags_wf:
  assumes "t \<in> set (split_tags v)"
  shows "t \<noteq> []" and "\<forall>c\<in>set t. \<not> is_tag_separator c"
  using assms split_on_no_sep [of t is_tag_separator v] by (auto simp: split_tags_def)

lemma concat_filter_not_Nil: "concat (filter (\<lambda>x. x \<noteq> []) xss) = concat xss"
  by (induction xss) auto

lemma concat_split_tags: "concat (split_tags v) = filter (\<lambda>c. \<not> is_tag_separator c) v"
  by (simp add: split_tags_def concat_filter_not_Nil split_facts)

lemma split_tags_sep:
  "is_tag_separator c \<Longrightarrow> split_tags (v @ c # w) = split_tags v @ split_tags w"
  by (simp add: split_tags_def split_facts)

lemma split_tags_single:
  "t \<noteq> [] \<Longrightarrow> \<forall>c\<in>set t. \<not> is_tag_separator c \<Longrightarrow> split_tags t = [t]"
  by (simp add: split_tags_def split_facts)

lemma split_tags_Nil [simp]: "split_tags [] = []"
  by (simp add: split_tags_def)

lemma split_tags_sep_Cons: "is_tag_separator c \<Longrightarrow> split_tags (c # w) = split_tags w"
  using split_tags_sep [of c "[]" w] by simp

lemma split_tags_all_sep: "\<forall>c\<in>set s. is_tag_separator c \<Longrightarrow> split_tags (s @ w) = split_tags w"
  by (induction s) (auto simp: split_tags_sep_Cons)

lemma split_tags_all_sep_back:
  "\<forall>c\<in>set s. is_tag_separator c \<Longrightarrow> split_tags (w @ s) = split_tags w"
proof (cases s)
  case (Cons c s')
  assume "\<forall>c\<in>set s. is_tag_separator c"
  with Cons show ?thesis
    using split_tags_sep [of c w s'] split_tags_all_sep [of s' "[]"] by simp
qed simp

text \<open>
  A value written as tags, each followed by separators: what a server may send, with any
  spelling of the separation. Only the last tag may have none after it.
\<close>

definition join_tags :: "(bytes \<times> bytes) list \<Rightarrow> bytes" where
  "join_tags ps = concat (map (\<lambda>(t, s). t @ s) ps)"

definition tag_ok :: "bytes \<Rightarrow> bool" where
  "tag_ok t \<longleftrightarrow> t \<noteq> [] \<and> (\<forall>c\<in>set t. \<not> is_tag_separator c)"

definition seps :: "bytes \<Rightarrow> bool" where
  "seps s \<longleftrightarrow> (\<forall>c\<in>set s. is_tag_separator c)"

lemma split_tags_join_append:
  "\<forall>(t, s)\<in>set ps. tag_ok t \<and> seps s \<and> s \<noteq> [] \<Longrightarrow>
   split_tags (join_tags ps @ v) = map fst ps @ split_tags v"
proof (induction ps)
  case (Cons p ps)
  obtain t s where p: "p = (t, s)" by (cases p)
  with Cons.prems have t: "tag_ok t" and s: "seps s" "s \<noteq> []" by auto
  then obtain c s' where s': "s = c # s'" "is_tag_separator c" "\<forall>c\<in>set s'. is_tag_separator c"
    by (cases s) (auto simp: seps_def)
  have "split_tags (join_tags (p # ps) @ v) = split_tags t @ split_tags (s' @ join_tags ps @ v)"
    using p s' split_tags_sep [of c t "s' @ join_tags ps @ v"] by (simp add: join_tags_def)
  also have "\<dots> = t # map fst ps @ split_tags v"
    using Cons t s' by (simp add: split_tags_single tag_ok_def split_tags_all_sep)
  finally show ?case using p by simp
qed (simp add: join_tags_def)

lemma split_tags_join:
  assumes "seps lead" "\<forall>(t, s)\<in>set ps. tag_ok t \<and> seps s" "\<forall>(t, s)\<in>set (butlast ps). s \<noteq> []"
  shows "split_tags (lead @ join_tags ps) = map fst ps"
proof (cases ps rule: rev_cases)
  case Nil
  then show ?thesis
    using assms(1) split_tags_all_sep [of lead "[]"] by (simp add: join_tags_def seps_def)
next
  case (snoc qs q)
  obtain t s where q: "q = (t, s)" by (cases q)
  have "join_tags ps = join_tags qs @ t @ s" by (simp add: join_tags_def snoc q)
  moreover have "split_tags (t @ s) = [t]"
    using assms(2) split_tags_all_sep_back [of s t]
    by (auto simp: snoc q seps_def tag_ok_def split_tags_single)
  moreover have "split_tags (join_tags qs @ t @ s) = map fst qs @ split_tags (t @ s)"
    using assms(2,3) by (intro split_tags_join_append) (auto simp: snoc)
  ultimately show ?thesis
    using assms(1) split_tags_all_sep [of lead "join_tags ps"] by (simp add: seps_def snoc q)
qed

section \<open>Trimming\<close>

lemma trim_front_dropWhile: "trim_front s = dropWhile is_ascii_whitespace s"
  by (induction s) auto

lemma trim_back_snoc:
  "trim_back (s @ [c]) = (if is_ascii_whitespace c then trim_back s else s @ [c])"
  by (subst trim_back.simps) simp

lemma trim_back_Nil [simp]: "trim_back [] = []"
  by (subst trim_back.simps) simp

lemma trim_back_dropWhile: "trim_back s = rev (dropWhile is_ascii_whitespace (rev s))"
  by (induction s rule: rev_induct) (simp_all add: trim_back_snoc)

lemma trim_cut:
  "\<exists>us vs. s = us @ trim s @ vs \<and> (\<forall>c\<in>set us. is_ascii_whitespace c)
     \<and> (\<forall>c\<in>set vs. is_ascii_whitespace c)"
proof -
  let ?w = is_ascii_whitespace
  let ?m = "dropWhile ?w s"
  have s: "s = takeWhile ?w s @ ?m" by simp
  have "rev ?m = takeWhile ?w (rev ?m) @ dropWhile ?w (rev ?m)" by simp
  then have "?m = trim s @ rev (takeWhile ?w (rev ?m))"
    by (metis rev_append rev_rev_ident trim_def trim_front_dropWhile trim_back_dropWhile)
  with s have "s = takeWhile ?w s @ trim s @ rev (takeWhile ?w (rev ?m))" by simp
  then show ?thesis by (metis set_rev set_takeWhileD)
qed

lemma trim_ends:
  assumes "trim s \<noteq> []"
  shows "\<not> is_ascii_whitespace (hd (trim s))" and "\<not> is_ascii_whitespace (last (trim s))"
proof -
  let ?m = "dropWhile is_ascii_whitespace s"
  let ?r = "dropWhile is_ascii_whitespace (rev ?m)"
  have t: "trim s = rev ?r" by (simp add: trim_def trim_front_dropWhile trim_back_dropWhile)
  then have r: "?r \<noteq> []" using assms by auto
  then have "\<not> is_ascii_whitespace (hd ?r)" by (rule hd_dropWhile)
  then show "\<not> is_ascii_whitespace (last (trim s))" using t r by (simp add: last_rev)
  have m: "?m \<noteq> []" using r by (metis dropWhile.simps(1) rev.simps(1))
  have "rev ?m = takeWhile is_ascii_whitespace (rev ?m) @ ?r" by simp
  then have "?m = rev ?r @ rev (takeWhile is_ascii_whitespace (rev ?m))"
    by (metis rev_append rev_rev_ident)
  then have "hd ?m = hd (rev ?r)" using r by (metis hd_append2 rev_is_Nil_conv)
  then show "\<not> is_ascii_whitespace (hd (trim s))" using t hd_dropWhile [OF m] by simp
qed

lemma trim_id:
  "s = [] \<or> \<not> is_ascii_whitespace (hd s) \<and> \<not> is_ascii_whitespace (last s) \<Longrightarrow> trim s = s"
proof (cases s)
  case (Cons a as)
  assume "s = [] \<or> \<not> is_ascii_whitespace (hd s) \<and> \<not> is_ascii_whitespace (last s)"
  with Cons show ?thesis by (auto simp: trim_def trim_back.simps [of "a # as"])
qed (simp add: trim_def)

lemma trim_idem: "trim (trim s) = trim s"
  using trim_ends [of s] by (intro trim_id) blast

lemma trim_eqI:
  assumes "\<forall>c\<in>set us. is_ascii_whitespace c" "\<forall>c\<in>set vs. is_ascii_whitespace c"
    and "m \<noteq> []" "\<not> is_ascii_whitespace (hd m)" "\<not> is_ascii_whitespace (last m)"
  shows "trim (us @ m @ vs) = m"
proof -
  have "trim_front (us @ m @ vs) = m @ vs"
    using assms(1,3,4) dropWhile_append2 [of us is_ascii_whitespace "m @ vs"]
    by (cases m) (auto simp: trim_front_dropWhile)
  moreover have "trim_back (m @ vs) = m"
    using assms(2)
  proof (induction vs rule: rev_induct)
    case Nil
    then show ?case using assms(3,5) by (simp add: trim_back.simps [of m])
  next
    case (snoc v vs)
    then show ?case using trim_back_snoc [of "m @ vs" v] by simp
  qed
  ultimately show ?thesis by (simp add: trim_def)
qed

lemma trim_all_ws: "\<forall>c\<in>set s. is_ascii_whitespace c \<Longrightarrow> trim s = []"
proof -
  assume "\<forall>c\<in>set s. is_ascii_whitespace c"
  then have "trim_front s = []" by (simp add: trim_front_dropWhile)
  then show ?thesis by (simp add: trim_def)
qed


section \<open>Searching a stored header block\<close>

text \<open>
  The block NGINX stores: a status line, one line per header, an empty line. \<open>header_lookup\<close>
  is what a search of the header list itself gives: the first header whose name matches.
\<close>

definition header_line :: "bytes \<times> bytes \<Rightarrow> bytes" where
  "header_line h = fst h @ [byte CHR '':'', 32] @ snd h @ [13, 10]"

definition header_block :: "bytes \<Rightarrow> (bytes \<times> bytes) list \<Rightarrow> bytes" where
  "header_block status hs = status @ [13, 10] @ concat (map header_line hs) @ [13, 10]"

fun header_lookup :: "bytes \<Rightarrow> (bytes \<times> bytes) list \<Rightarrow> bytes option" where
  "header_lookup name [] = None"
| "header_lookup name ((n, v) # hs) =
     (if eq_ignore_ascii_case n name then Some v else header_lookup name hs)"

definition field_name :: "bytes \<Rightarrow> bool" where
  "field_name n \<longleftrightarrow> n \<noteq> [] \<and> (\<forall>c\<in>set n. c \<noteq> byte CHR '':'' \<and> \<not> is_ascii_whitespace c)"

definition header_ok :: "bytes \<times> bytes \<Rightarrow> bool" where
  "header_ok h \<longleftrightarrow> field_name (fst h) \<and> 10 \<notin> set (snd h)"

text \<open>Trimming a line leaves its name and its colon, and the value up to whitespace at its ends.\<close>

lemma trim_colon_line:
  assumes n: "field_name n"
  shows "\<exists>w. trim (n @ 58 # u) = n @ 58 # w \<and> trim w = trim u"
proof -
  obtain us vs where u: "u = us @ trim u @ vs" "\<forall>c\<in>set us. is_ascii_whitespace c"
    "\<forall>c\<in>set vs. is_ascii_whitespace c"
    using trim_cut by blast
  have n': "n \<noteq> []" "\<not> is_ascii_whitespace (hd n)"
    using n by (auto simp: field_name_def)
  have ws: "\<not> is_ascii_whitespace 58" by (simp add: is_ascii_whitespace_def)
  show ?thesis
  proof (cases "trim u = []")
    case True
    with u have all: "\<forall>c\<in>set u. is_ascii_whitespace c" by (metis Un_iff append_Nil set_append)
    then have "trim ([] @ (n @ [58]) @ u) = n @ [58]"
      using n' ws by (intro trim_eqI) auto
    moreover have "trim [] = []" by (simp add: trim_all_ws)
    ultimately show ?thesis using True by (metis append_Cons append_Nil append_assoc)
  next
    case False
    let ?m = "n @ 58 # us @ trim u"
    have "trim ([] @ ?m @ vs) = ?m"
      using n' u(3) False trim_ends [of u] by (intro trim_eqI) auto
    moreover have "[] @ ?m @ vs = n @ 58 # u" by (subst (2) u(1)) simp
    moreover have "trim (us @ trim u @ []) = trim u"
      using u(2) False trim_ends [of u] by (intro trim_eqI) auto
    ultimately show ?thesis by (metis append_Nil2)
  qed
qed

lemma trim_pad: "trim (32 # v @ [13]) = trim v"
proof -
  obtain us vs where v: "v = us @ trim v @ vs" "\<forall>c\<in>set us. is_ascii_whitespace c"
    "\<forall>c\<in>set vs. is_ascii_whitespace c"
    using trim_cut by blast
  have ws: "is_ascii_whitespace 32" "is_ascii_whitespace 13" by (simp_all add: is_ascii_whitespace_def)
  show ?thesis
  proof (cases "trim v = []")
    case True
    then have "\<forall>c\<in>set v. is_ascii_whitespace c" using v by (metis Un_iff append_Nil set_append)
    then show ?thesis using True ws by (simp add: trim_all_ws)
  next
    case False
    have "trim ((32 # us) @ trim v @ (vs @ [13])) = trim v"
      using v(2,3) ws False trim_ends [of v] by (intro trim_eqI) auto
    moreover have "(32 # us) @ trim v @ (vs @ [13]) = 32 # v @ [13]" by (subst (2) v(1)) simp
    ultimately show ?thesis by (simp only:)
  qed
qed

lemma find_header_lines_colon:
  assumes "field_name n"
  shows "find_header_lines ((n @ 58 # u) # ls) name =
    (if eq_ignore_ascii_case n name then Some (trim u) else find_header_lines ls name)"
proof -
  obtain w where w: "trim (n @ 58 # u) = n @ 58 # w" "trim w = trim u"
    using trim_colon_line [OF assms] by blast
  have "position (\<lambda>c. c = byte CHR '':'') (n @ 58 # w) = Some (length n)"
    using assms by (intro position_append_first) (auto simp: field_name_def)
  then show ?thesis using w by (simp add: find_header_lines.simps Let_def)
qed

lemma find_header_lines_header:
  assumes "field_name n"
  shows "find_header_lines ((n @ 58 # 32 # v @ [13]) # ls) name =
    (if eq_ignore_ascii_case n name then Some (trim v) else find_header_lines ls name)"
  using find_header_lines_colon [OF assms, of "32 # v @ [13]"] by (simp add: trim_pad)

lemma find_header_lines_no_colon:
  assumes "58 \<notin> set s"
  shows "find_header_lines (s # ls) name = find_header_lines ls name"
proof -
  obtain us vs where "s = us @ trim s @ vs" using trim_cut by blast
  with assms have "58 \<notin> set (trim s)" by (metis in_set_conv_decomp_last append_assoc in_set_conv_decomp append_Cons)
  then have "position (\<lambda>c. c = byte CHR '':'') (trim s) = None" by auto
  then show ?thesis by (simp add: find_header_lines.simps Let_def del: position_None)
qed

lemma find_header_Cons_line:
  assumes "\<forall>c\<in>set l. c \<noteq> 10"
  shows "find_header (l @ 10 # rest) name = find_header_lines (l # split_on (\<lambda>c. c = 10) rest) name"
  using split_on_append_sep [of "\<lambda>c. c = 10" 10 l rest] split_on_id [OF assms]
  by (simp add: find_header_def)

lemma find_header_Cons_header:
  assumes "header_ok (n, v)"
  shows "find_header (header_line (n, v) @ rest) name =
    (if eq_ignore_ascii_case n name then Some (trim v) else find_header rest name)"
proof -
  have "header_line (n, v) @ rest = (n @ 58 # 32 # v @ [13]) @ 10 # rest"
    by (simp add: header_line_def)
  moreover have "\<forall>c\<in>set (n @ 58 # 32 # v @ [13]). c \<noteq> 10"
    using assms by (auto simp: header_ok_def field_name_def is_ascii_whitespace_def)
  ultimately show ?thesis
    using assms find_header_Cons_line [of "n @ 58 # 32 # v @ [13]" rest name]
    by (simp add: header_ok_def find_header_lines_header flip: find_header_def)
qed

lemma find_header_headers:
  "\<forall>h\<in>set hs. header_ok h \<Longrightarrow>
   find_header (concat (map header_line hs) @ [13, 10]) name =
     map_option trim (header_lookup name hs)"
proof (induction hs)
  case Nil
  have "trim [13] = []" "trim [] = []" by (simp_all add: trim_all_ws is_ascii_whitespace_def)
  then show ?case by (simp add: find_header_def find_header_lines.simps)
next
  case (Cons h hs)
  then show ?case by (cases h) (simp add: find_header_Cons_header)
qed

lemma find_header_block:
  assumes "\<forall>h\<in>set hs. header_ok h" and "58 \<notin> set status" and "10 \<notin> set status"
  shows "find_header (header_block status hs) name = map_option trim (header_lookup name hs)"
proof -
  have "\<forall>c\<in>set (status @ [13]). c \<noteq> 10" using assms(3) by auto
  moreover have "header_block status hs
      = (status @ [13]) @ 10 # (concat (map header_line hs) @ [13, 10])"
    by (simp add: header_block_def)
  ultimately show ?thesis
    using assms find_header_Cons_line [of "status @ [13]" "concat (map header_line hs) @ [13, 10]" name]
    by (simp add: find_header_lines_no_colon find_header_headers flip: find_header_def)
qed

section \<open>Blocks of raw lines\<close>

text \<open>
  What an upstream may send and NGINX stores as it came: lines that end in a line feed, each a
  name, a colon and any bytes: no space after the colon or several, a carriage return before the
  line feed or none. \<open>rest\<close> is what follows the headers.
\<close>

definition raw_block :: "bytes \<Rightarrow> (bytes \<times> bytes) list \<Rightarrow> bytes \<Rightarrow> bytes" where
  "raw_block status hs rest =
     status @ [10] @ concat (map (\<lambda>(n, u). n @ [byte CHR '':''] @ u @ [10]) hs) @ rest"

lemma find_header_lines_none:
  "\<forall>l\<in>set ls. 58 \<notin> set l \<Longrightarrow> find_header_lines ls name = None"
  by (induction ls) (simp_all add: find_header_lines_no_colon)

lemma find_header_none: "58 \<notin> set s \<Longrightarrow> find_header s name = None"
  unfolding find_header_def
  by (rule find_header_lines_none) (metis split_on_infix in_set_conv_decomp append.assoc append_Cons)

lemma find_header_raw_block:
  assumes "\<forall>h\<in>set hs. header_ok h" "58 \<notin> set status" "10 \<notin> set status" "58 \<notin> set rest"
  shows "find_header (raw_block status hs rest) name = map_option trim (header_lookup name hs)"
proof -
  let ?b = "\<lambda>hs. concat (map (\<lambda>(n, u). n @ [58] @ u @ [10]) hs) @ rest"
  have "find_header (?b hs) name = map_option trim (header_lookup name hs)"
    using assms(1)
  proof (induction hs)
    case Nil
    then show ?case using find_header_none [OF assms(4)] by simp
  next
    case (Cons h hs)
    obtain n u where h: "h = (n, u)" by (cases h)
    have ok: "field_name n" "\<forall>c\<in>set (n @ 58 # u). c \<noteq> 10"
      using Cons.prems by (auto simp: h header_ok_def field_name_def is_ascii_whitespace_def)
    have "?b (h # hs) = (n @ 58 # u) @ 10 # ?b hs" by (simp add: h)
    then show ?case
      using Cons find_header_Cons_line [OF ok(2), of "?b hs" name]
      by (simp add: h find_header_lines_colon [OF ok(1)] flip: find_header_def)
  qed
  moreover have "\<forall>c\<in>set status. c \<noteq> 10" using assms(3) by auto
  moreover have "raw_block status hs rest = status @ 10 # ?b hs" by (simp add: raw_block_def)
  ultimately show ?thesis
    using find_header_Cons_line [of status "?b hs" name] find_header_lines_no_colon [OF assms(2)]
    by (simp flip: find_header_def)
qed

end
