(* ===== verification/Tag_Index.thy ===== *)
theory Tag_Index
  imports Ngx_Containers Xkey_Text
begin

text \<open>
  The shared-memory tag index of \<open>src/index.rs\<close>, operation by operation. Entries live at
  addresses (\<open>ti_heap\<close>), the map takes a tag to an address, and the LRU links entries by
  address, so an eviction starts from a bare link as the code does. Every operation returns
  \<open>option\<close>: None is a read through a link or map slot that owns no entry, which would be
  undefined behaviour of the unsafe code. The invariant theory shows it never happens.
\<close>

definition MAX_KEYS_PER_TAG :: nat where
  "MAX_KEYS_PER_TAG = 65536"

definition EVICT_ATTEMPTS :: nat where
  "EVICT_ATTEMPTS = 64"

record entry =
  e_tag :: bytes
  e_keys :: key_vec

record ('m, 'q) tag_index =
  ti_map :: 'm
  ti_heap :: "addr \<Rightarrow> entry option"
  ti_lru :: 'q
  ti_tags :: usize
  ti_keys :: usize
  ti_evicted :: u64
  ti_dropped :: u64

datatype alloc_error = AllocError

text \<open>The index together with the slab its allocations come from.\<close>

type_synonym ('a, 'm, 'q) pool = "('m, 'q) tag_index \<times> 'a"

type_synonym 'r outcome = "alloc_error + 'r"

section \<open>The private operations\<close>

definition append_key ::
  "('a, 'm, 'q) ngx \<Rightarrow> bytes \<Rightarrow> cache_key \<Rightarrow> ('a, 'm, 'q) pool \<Rightarrow>
   (unit outcome \<times> ('a, 'm, 'q) pool) option" where
  "append_key N tag key s =
     (let (ti, a) = s in
      case map_get N (ti_map ti) tag of
        None \<Rightarrow> Some (Inl AllocError, ti, a)
      | Some p \<Rightarrow>
          (case ti_heap ti p of
             None \<Rightarrow> None
           | Some entry \<Rightarrow>
               if key \<in> set (items (e_keys entry))
               then Some (Inr (), ti\<lparr>ti_dropped := ti_dropped ti + 0,
                                     ti_keys := ti_keys ti + (0 - 0)\<rparr>, a)
               else
                 let (keys, dropped) =
                   (if MAX_KEYS_PER_TAG \<le> length (items (e_keys entry))
                    then ((e_keys entry)\<lparr>items := tl (items (e_keys entry))\<rparr>, 1)
                    else (e_keys entry, 0))
                 in case vec_try_reserve N keys a of
                      (None, a') \<Rightarrow>
                        Some (Inl AllocError,
                              ti\<lparr>ti_heap := (ti_heap ti)(p \<mapsto> entry\<lparr>e_keys := keys\<rparr>)\<rparr>, a')
                    | (Some keys', a') \<Rightarrow>
                        Some (Inr (),
                              ti\<lparr>ti_heap := (ti_heap ti)
                                   (p \<mapsto> entry\<lparr>e_keys := keys'\<lparr>items := items keys' @ [key]\<rparr>\<rparr>),
                                 ti_dropped := ti_dropped ti + dropped,
                                 ti_keys := ti_keys ti + (1 - dropped)\<rparr>, a')))"

text \<open>
  Each failing step drops what the earlier ones built, in reverse order. \<open>new_vec\<close> is
  \<open>Keys::new_in\<close>, which does not allocate.
\<close>

definition create ::
  "('a, 'm, 'q) ngx \<Rightarrow> bytes \<Rightarrow> cache_key \<Rightarrow> ('a, 'm, 'q) pool \<Rightarrow>
   unit outcome \<times> ('a, 'm, 'q) pool" where
  "create N tag key s =
     (let (ti, a) = s in
      case string_try_from N tag a of
        (False, a1) \<Rightarrow> (Inl AllocError, ti, a1)
      | (True, a1) \<Rightarrow>
      (case string_try_from N tag a1 of
        (False, a2) \<Rightarrow> (Inl AllocError, ti, string_drop N tag a2)
      | (True, a2) \<Rightarrow>
      (case vec_try_reserve N new_vec a2 of
        (None, a3) \<Rightarrow>
          (Inl AllocError, ti, string_drop N tag (string_drop N tag (vec_drop N new_vec a3)))
      | (Some keys, a3) \<Rightarrow>
          (let entry = \<lparr>e_tag = tag, e_keys = keys\<lparr>items := items keys @ [key]\<rparr>\<rparr> in
           case map_try_insert N (ti_map ti) tag a3 of
             (None, a4) \<Rightarrow> (Inl AllocError, ti, a4)
           | (Some (slot, m'), a4) \<Rightarrow>
               (Inr (),
                ti\<lparr>ti_map := m',
                   ti_heap := (ti_heap ti)(slot \<mapsto> entry),
                   ti_lru := queue_insert_after N (ti_lru ti) Head (Link slot),
                   ti_tags := ti_tags ti + 1,
                   ti_keys := ti_keys ti + 1\<rparr>, a4)))))"

definition touch ::
  "('a, 'm, 'q) ngx \<Rightarrow> link \<Rightarrow> ('m, 'q) tag_index \<Rightarrow> ('m, 'q) tag_index" where
  "touch N link ti =
     ti\<lparr>ti_lru := queue_insert_after N (queue_remove N (ti_lru ti) link) Head link\<rparr>"

text \<open>
  The entry a link is cast to names the map key to remove; the entry removed is then dropped,
  which frees its tag and its keys.
\<close>

definition evict ::
  "('a, 'm, 'q) ngx \<Rightarrow> ('a, 'm, 'q) pool \<Rightarrow> (bool \<times> ('a, 'm, 'q) pool) option" where
  "evict N s =
     (let (ti, a) = s; last = queue_prev N (ti_lru ti) Head in
      case last of
        Null \<Rightarrow> Some (False, ti, a)
      | Head \<Rightarrow> Some (False, ti, a)
      | Link p \<Rightarrow>
          (case ti_heap ti p of
             None \<Rightarrow> None
           | Some entry \<Rightarrow>
               (let len = min (length (e_tag entry)) MAX_TAG_LEN;
                    name = take len (e_tag entry);
                    ti1 = ti\<lparr>ti_lru := queue_remove N (ti_lru ti) last\<rparr>
                in case map_remove N (ti_map ti1) name a of
                     None \<Rightarrow> Some (False, ti1, a)
                   | Some (slot, m', a') \<Rightarrow>
                       (case ti_heap ti1 slot of
                          None \<Rightarrow> None
                        | Some removed \<Rightarrow>
                            Some (True,
                              ti1\<lparr>ti_map := m',
                                  ti_heap := (ti_heap ti1)(slot := None),
                                  ti_tags := ti_tags ti1 - 1,
                                  ti_keys := ti_keys ti1 - of_nat (length (items (e_keys removed))),
                                  ti_evicted := ti_evicted ti1 + 1\<rparr>,
                              vec_drop N (e_keys removed)
                                (string_drop N (e_tag removed) a'))))))"

section \<open>The public operations\<close>

text \<open>The loop \<open>for _ in 0..EVICT_ATTEMPTS\<close>, with the attempts left.\<close>

fun insert_attempts ::
  "('a, 'm, 'q) ngx \<Rightarrow> nat \<Rightarrow> bytes \<Rightarrow> cache_key \<Rightarrow> ('a, 'm, 'q) pool \<Rightarrow>
   (unit outcome \<times> ('a, 'm, 'q) pool) option" where
  "insert_attempts N 0 tag key s = Some (Inl AllocError, s)"
| "insert_attempts N (Suc n) tag key s =
     (case (if map_get N (ti_map (fst s)) tag \<noteq> None then append_key N tag key s
            else Some (create N tag key s)) of
        None \<Rightarrow> None
      | Some (Inr u, s1) \<Rightarrow> Some (Inr u, s1)
      | Some (Inl e, s1) \<Rightarrow>
          (case evict N s1 of
             None \<Rightarrow> None
           | Some (evicted, s2) \<Rightarrow>
               if \<not> evicted then Some (Inl e, s2) else insert_attempts N n tag key s2))"

definition index_insert ::
  "('a, 'm, 'q) ngx \<Rightarrow> bytes \<Rightarrow> cache_key \<Rightarrow> ('a, 'm, 'q) pool \<Rightarrow>
   (unit outcome \<times> ('a, 'm, 'q) pool) option" where
  "index_insert N tag key s =
     (if tag = [] \<or> MAX_TAG_LEN < length tag then Some (Inl AllocError, s)
      else
        let (ti, a) = s;
            ti1 = (case map_get N (ti_map ti) tag of
                     Some p \<Rightarrow> touch N (Link p) ti
                   | None \<Rightarrow> ti)
        in insert_attempts N EVICT_ATTEMPTS tag key (ti1, a))"

text \<open>The keys are moved out of the entry to the caller; its tag is dropped.\<close>

definition index_take ::
  "('a, 'm, 'q) ngx \<Rightarrow> bytes \<Rightarrow> ('a, 'm, 'q) pool \<Rightarrow>
   (key_vec option \<times> ('a, 'm, 'q) pool) option" where
  "index_take N tag s =
     (let (ti, a) = s in
      case map_get N (ti_map ti) tag of
        None \<Rightarrow> Some (None, ti, a)
      | Some p \<Rightarrow>
          (let ti1 = ti\<lparr>ti_lru := queue_remove N (ti_lru ti) (Link p)\<rparr> in
           case map_remove N (ti_map ti1) tag a of
             None \<Rightarrow> Some (None, ti1, a)
           | Some (slot, m', a') \<Rightarrow>
               (case ti_heap ti1 slot of
                  None \<Rightarrow> None
                | Some removed \<Rightarrow>
                    Some (Some (e_keys removed),
                      ti1\<lparr>ti_map := m',
                          ti_heap := (ti_heap ti1)(slot := None),
                          ti_tags := ti_tags ti1 - 1,
                          ti_keys := ti_keys ti1 - of_nat (length (items (e_keys removed)))\<rparr>,
                      string_drop N (e_tag removed) a'))))"

end
