(* ===== verification/Lru_Spec.thy ===== *)
theory Lru_Spec
  imports Tag_Index
begin

text \<open>
  What the tag index promises, without memory: a list of tags with their keys, most recently
  used first. The operations are list functions; the lemmas give their effect on a lookup,
  on the well-formedness of the list and on the number of keys it holds. The refinement
  theory shows that the code's operations compute these.
\<close>

type_synonym lru = "(bytes \<times> cache_key list) list"

named_theorems lru_simps \<open>the list operations on a list split at a tag\<close>

section \<open>Operations\<close>

definition add_key :: "cache_key \<Rightarrow> cache_key list \<Rightarrow> cache_key list" where
  "add_key k ks =
     (if k \<in> set ks then ks
      else (if MAX_KEYS_PER_TAG \<le> length ks then tl ks else ks) @ [k])"

definition lru_touch :: "bytes \<Rightarrow> lru \<Rightarrow> lru" where
  "lru_touch t L =
     (case map_of L t of None \<Rightarrow> L | Some ks \<Rightarrow> (t, ks) # filter (\<lambda>e. fst e \<noteq> t) L)"

definition lru_record :: "bytes \<Rightarrow> cache_key \<Rightarrow> lru \<Rightarrow> lru" where
  "lru_record t k L =
     (case map_of L t of
        None \<Rightarrow> (t, [k]) # L
      | Some ks \<Rightarrow> map (\<lambda>e. if fst e = t then (t, add_key k ks) else e) L)"

definition lru_remove :: "bytes \<Rightarrow> lru \<Rightarrow> lru" where
  "lru_remove t L = filter (\<lambda>e. fst e \<noteq> t) L"

text \<open>Whether recording a key sheds the tag's oldest one.\<close>

definition lru_sheds :: "bytes \<Rightarrow> cache_key \<Rightarrow> lru \<Rightarrow> bool" where
  "lru_sheds t k L =
     (case map_of L t of
        None \<Rightarrow> False
      | Some ks \<Rightarrow> k \<notin> set ks \<and> MAX_KEYS_PER_TAG \<le> length ks)"

definition key_count :: "lru \<Rightarrow> nat" where
  "key_count L = sum_list (map (\<lambda>e. length (snd e)) L)"

definition keys_ok :: "cache_key list \<Rightarrow> bool" where
  "keys_ok ks \<longleftrightarrow> ks \<noteq> [] \<and> distinct ks \<and> length ks \<le> MAX_KEYS_PER_TAG"

definition lru_ok :: "lru \<Rightarrow> bool" where
  "lru_ok L \<longleftrightarrow> distinct (map fst L)
     \<and> (\<forall>e\<in>set L. fst e \<noteq> [] \<and> length (fst e) \<le> MAX_TAG_LEN \<and> keys_ok (snd e))"

section \<open>Lemmas\<close>

lemma lru_split:
  assumes "t \<notin> fst ` set A" "t \<notin> fst ` set B"
  shows map_of_split [lru_simps]: "map_of (A @ (t, ks) # B) t = Some ks"
    and lru_touch_split [lru_simps]: "lru_touch t (A @ (t, ks) # B) = (t, ks) # A @ B"
    and lru_record_split [lru_simps]:
      "lru_record t k (A @ (t, ks) # B) = A @ (t, add_key k ks) # B"
    and lru_remove_split [lru_simps]: "lru_remove t (A @ (t, ks) # B) = A @ B"
proof -
  have A: "map_of A t = None" using assms(1) by (simp add: map_of_eq_None_iff)
  then show m: "map_of (A @ (t, ks) # B) t = Some ks" by (simp add: map_add_def)
  have f: "filter (\<lambda>e. fst e \<noteq> t) C = C" if "t \<notin> fst ` set C" for C :: lru
    using that by (induction C) auto
  have g: "map (\<lambda>e. if fst e = t then x else e) C = C" if "t \<notin> fst ` set C" for C :: lru and x
    using that by (induction C) auto
  show "lru_touch t (A @ (t, ks) # B) = (t, ks) # A @ B"
    using m f [OF assms(1)] f [OF assms(2)] by (simp add: lru_touch_def)
  show "lru_record t k (A @ (t, ks) # B) = A @ (t, add_key k ks) # B"
    using m g [OF assms(1)] g [OF assms(2)] by (simp add: lru_record_def)
  show "lru_remove t (A @ (t, ks) # B) = A @ B"
    using f [OF assms(1)] f [OF assms(2)] by (simp add: lru_remove_def)
qed

lemma lru_obtain_split:
  assumes "lru_ok L" "map_of L t = Some ks"
  obtains A B where "L = A @ (t, ks) # B" "t \<notin> fst ` set A" "t \<notin> fst ` set B"
proof -
  have "(t, ks) \<in> set L" using assms(2) by (rule map_of_SomeD)
  then obtain A B where L: "L = A @ (t, ks) # B" by (meson split_list)
  then have "t \<notin> fst ` set A" "t \<notin> fst ` set B" using assms(1) by (auto simp: lru_ok_def)
  then show ?thesis using that L by blast
qed

lemma key_count_simps [simp]:
  "key_count [] = 0"
  "key_count (e # L) = length (snd e) + key_count L"
  "key_count (A @ B) = key_count A + key_count B"
  by (simp_all add: key_count_def)

lemma lru_ok_Nil [simp]: "lru_ok []"
  by (simp add: lru_ok_def)

lemma lru_ok_Cons:
  "lru_ok (e # L) \<longleftrightarrow> fst e \<noteq> [] \<and> length (fst e) \<le> MAX_TAG_LEN \<and> keys_ok (snd e)
     \<and> fst e \<notin> fst ` set L \<and> lru_ok L"
  by (auto simp: lru_ok_def)

lemma lru_ok_split:
  "lru_ok (A @ e # B) \<longleftrightarrow> lru_ok (e # A @ B)"
  by (auto simp: lru_ok_def)

lemma lru_ok_butlast: "lru_ok L \<Longrightarrow> lru_ok (butlast L)"
  by (auto simp: lru_ok_def map_butlast distinct_butlast dest: in_set_butlastD)

lemma lru_ok_remove: "lru_ok L \<Longrightarrow> lru_ok (lru_remove t L)"
  by (auto simp: lru_ok_def lru_remove_def distinct_map_filter)

lemma keys_ok_single [simp]: "keys_ok [k]"
  by (simp add: keys_ok_def MAX_KEYS_PER_TAG_def)

lemma keys_ok_add: "keys_ok ks \<Longrightarrow> keys_ok (add_key k ks)"
proof -
  assume ok: "keys_ok ks"
  show ?thesis
  proof (cases ks)
    case (Cons x xs)
    with ok show ?thesis by (auto simp: keys_ok_def add_key_def MAX_KEYS_PER_TAG_def)
  qed (use ok in \<open>simp add: keys_ok_def\<close>)
qed

lemma add_key_mem: "k \<in> set (add_key k ks)"
  by (simp add: add_key_def)

lemma set_add_key: "set (add_key k ks) \<subseteq> insert k (set ks)"
  by (cases ks) (auto simp: add_key_def)

lemma set_add_key_room:
  "length ks < MAX_KEYS_PER_TAG \<Longrightarrow> set (add_key k ks) = insert k (set ks)"
  by (auto simp: add_key_def)

lemma lru_touch_id: "map_of L t = None \<Longrightarrow> lru_touch t L = L"
  by (simp add: lru_touch_def)

lemma lru_ok_touch: "lru_ok L \<Longrightarrow> lru_ok (lru_touch t L)"
proof (cases "map_of L t")
  case (Some ks)
  assume ok: "lru_ok L"
  from ok Some obtain A B where "L = A @ (t, ks) # B" "t \<notin> fst ` set A" "t \<notin> fst ` set B"
    by (rule lru_obtain_split)
  with ok show ?thesis by (simp add: lru_simps lru_ok_split)
qed (simp add: lru_touch_id)

lemma map_of_touch: "lru_ok L \<Longrightarrow> map_of (lru_touch t L) = map_of L"
proof (cases "map_of L t")
  case (Some ks)
  assume ok: "lru_ok L"
  from ok Some obtain A B where s: "L = A @ (t, ks) # B" "t \<notin> fst ` set A" "t \<notin> fst ` set B"
    by (rule lru_obtain_split)
  have "map_of A t = None" using s(2) by (simp add: map_of_eq_None_iff)
  then show ?thesis using s by (auto simp: lru_simps fun_eq_iff map_add_def split: option.splits)
qed (simp add: lru_touch_id)

lemma map_of_record:
  assumes "lru_ok L"
  shows "map_of (lru_record t k L) =
    (map_of L)(t \<mapsto> (case map_of L t of None \<Rightarrow> [k] | Some ks \<Rightarrow> add_key k ks))"
proof (cases "map_of L t")
  case (Some ks)
  with assms obtain A B where s: "L = A @ (t, ks) # B" "t \<notin> fst ` set A" "t \<notin> fst ` set B"
    by (rule lru_obtain_split)
  have "map_of A t = None" using s(2) by (simp add: map_of_eq_None_iff)
  then show ?thesis using s Some by (auto simp: lru_simps fun_eq_iff map_add_def split: option.splits)
qed (simp add: lru_record_def)

lemma lru_record_present:
  assumes "lru_ok L" "map_of L t = Some ks" "k \<in> set ks"
  shows "lru_record t k L = L"
proof -
  obtain A B where s: "L = A @ (t, ks) # B" "t \<notin> fst ` set A" "t \<notin> fst ` set B"
    by (rule lru_obtain_split [OF assms(1,2)])
  then show ?thesis using assms(3) by (simp add: lru_simps add_key_def)
qed

lemma lru_ok_record:
  assumes "lru_ok L" "t \<noteq> []" "length t \<le> MAX_TAG_LEN"
  shows "lru_ok (lru_record t k L)"
proof (cases "map_of L t")
  case None
  then have "t \<notin> fst ` set L" by (simp add: map_of_eq_None_iff)
  with None show ?thesis using assms by (simp add: lru_record_def lru_ok_Cons)
next
  case (Some ks)
  with assms(1) obtain A B where s: "L = A @ (t, ks) # B" "t \<notin> fst ` set A" "t \<notin> fst ` set B"
    by (rule lru_obtain_split)
  then show ?thesis using assms by (simp add: lru_simps lru_ok_split lru_ok_Cons keys_ok_add)
qed

lemma map_of_remove: "map_of (lru_remove t L) = (map_of L)(t := None)"
  by (induction L) (auto simp: lru_remove_def)

lemma map_of_butlast: "lru_ok L \<Longrightarrow> map_of (butlast L) t = Some ks \<Longrightarrow> map_of L t = Some ks"
proof -
  assume ok: "lru_ok L" and m: "map_of (butlast L) t = Some ks"
  have "(t, ks) \<in> set L" using m by (meson in_set_butlastD map_of_SomeD)
  then show ?thesis using ok by (simp add: lru_ok_def map_of_is_SomeI)
qed

text \<open>Evicting n tags from the cold end.\<close>

definition lru_evict :: "nat \<Rightarrow> lru \<Rightarrow> lru" where
  "lru_evict n = butlast ^^ n"

lemma lru_evict_0 [simp]: "lru_evict 0 L = L"
  by (simp add: lru_evict_def)

lemma lru_evict_Suc: "lru_evict (Suc n) L = lru_evict n (butlast L)"
  by (simp only: lru_evict_def funpow_Suc_right comp_apply)

lemma lru_evict_take: "lru_evict n L = take (length L - n) L"
proof (induction n arbitrary: L)
  case (Suc n)
  then show ?case by (cases L rule: rev_cases) (simp_all add: lru_evict_Suc)
qed simp

lemma lru_ok_evict: "lru_ok L \<Longrightarrow> lru_ok (lru_evict n L)"
  by (induction n arbitrary: L) (auto simp: lru_evict_Suc lru_ok_butlast)

lemma map_of_evict: "lru_ok L \<Longrightarrow> map_of (lru_evict n L) t = Some ks \<Longrightarrow> map_of L t = Some ks"
proof (induction n arbitrary: L)
  case (Suc n)
  then have "map_of (butlast L) t = Some ks" by (simp add: lru_evict_Suc lru_ok_butlast)
  then show ?case by (rule map_of_butlast [OF Suc.prems(1)])
qed simp

end
