(* ===== verification/Tag_Index_Refine.thy ===== *)
theory Tag_Index_Refine
  imports Lru_Spec
begin

text \<open>
  The invariant of the tag index and its refinement to the list of \<open>Lru_Spec\<close>. The invariant
  says that the LRU links exactly the entries the map owns, that an entry's copy of its tag is
  the key it is stored under, and that the counters count. Each operation keeps it, never
  reads a dangling link, and computes the list operation of the same name.
\<close>

section \<open>Invariant and view\<close>

definition vec_ok :: "key_vec \<Rightarrow> bool" where
  "vec_ok v \<longleftrightarrow> length (items v) \<le> capacity v"

definition tag_at :: "('m, 'q) tag_index \<Rightarrow> addr \<Rightarrow> bytes option" where
  "tag_at ti p = map_option e_tag (ti_heap ti p)"

definition entry_view :: "('m, 'q) tag_index \<Rightarrow> addr \<Rightarrow> bytes \<times> cache_key list" where
  "entry_view ti p =
     (case ti_heap ti p of Some e \<Rightarrow> (e_tag e, items (e_keys e)) | None \<Rightarrow> ([], []))"

text \<open>The index at the entries \<open>ps\<close>, most recently used first, as a list of tags.\<close>

definition index_view :: "('m, 'q) tag_index \<Rightarrow> addr list \<Rightarrow> lru" where
  "index_view ti ps = map (entry_view ti) ps"

definition index_ok ::
  "('a, 'm, 'q) ngx \<Rightarrow> ('q \<Rightarrow> addr list \<Rightarrow> bool) \<Rightarrow> ('m \<Rightarrow> bool) \<Rightarrow>
   ('m, 'q) tag_index \<Rightarrow> addr list \<Rightarrow> bool" where
  "index_ok N ring map_ok ti ps \<longleftrightarrow>
     ring (ti_lru ti) ps \<and> map_ok (ti_map ti) \<and> distinct ps
     \<and> (\<forall>t p. map_get N (ti_map ti) t = Some p \<longleftrightarrow> p \<in> set ps \<and> tag_at ti p = Some t)
     \<and> (\<forall>p\<in>set ps. \<exists>e. ti_heap ti p = Some e \<and> vec_ok (e_keys e))
     \<and> lru_ok (index_view ti ps)
     \<and> ti_tags ti = of_nat (length ps)
     \<and> ti_keys ti = of_nat (key_count (index_view ti ps))"

lemma index_view_simps [simp]:
  "index_view ti [] = []"
  "index_view ti (p # ps) = entry_view ti p # index_view ti ps"
  "index_view ti (ps @ qs) = index_view ti ps @ index_view ti qs"
  "length (index_view ti ps) = length ps"
  by (simp_all add: index_view_def)

lemma entry_view_heap [simp]:
  "entry_view (ti\<lparr>ti_lru := q\<rparr>) p = entry_view ti p"
  "entry_view (ti\<lparr>ti_map := m\<rparr>) p = entry_view ti p"
  "entry_view (ti\<lparr>ti_tags := n\<rparr>) p = entry_view ti p"
  "entry_view (ti\<lparr>ti_keys := n\<rparr>) p = entry_view ti p"
  "entry_view (ti\<lparr>ti_evicted := n'\<rparr>) p = entry_view ti p"
  "entry_view (ti\<lparr>ti_dropped := n'\<rparr>) p = entry_view ti p"
  "entry_view (ti\<lparr>ti_heap := h\<rparr>) p =
     (case h p of Some e \<Rightarrow> (e_tag e, items (e_keys e)) | None \<Rightarrow> ([], []))"
  by (simp_all add: entry_view_def)

lemma tag_at_heap [simp]:
  "tag_at (ti\<lparr>ti_lru := q\<rparr>) p = tag_at ti p"
  "tag_at (ti\<lparr>ti_map := m\<rparr>) p = tag_at ti p"
  "tag_at (ti\<lparr>ti_tags := n\<rparr>) p = tag_at ti p"
  "tag_at (ti\<lparr>ti_keys := n\<rparr>) p = tag_at ti p"
  "tag_at (ti\<lparr>ti_evicted := n'\<rparr>) p = tag_at ti p"
  "tag_at (ti\<lparr>ti_dropped := n'\<rparr>) p = tag_at ti p"
  "tag_at (ti\<lparr>ti_heap := h\<rparr>) p = map_option e_tag (h p)"
  by (simp_all add: tag_at_def)

text \<open>The view of entries away from an updated address does not change.\<close>

lemma index_view_cong: "(\<And>p. p \<in> set ps \<Longrightarrow> ti_heap ti' p = ti_heap ti p) \<Longrightarrow>
    index_view ti' ps = index_view ti ps"
  by (simp add: index_view_def entry_view_def)

section \<open>Consequences of the invariant\<close>

named_theorems index_okD \<open>the parts of the invariant\<close>

lemma index_ok_ring [index_okD]: "index_ok N ring map_ok ti ps \<Longrightarrow> ring (ti_lru ti) ps"
  and index_ok_map [index_okD]: "index_ok N ring map_ok ti ps \<Longrightarrow> map_ok (ti_map ti)"
  and index_ok_distinct [index_okD]: "index_ok N ring map_ok ti ps \<Longrightarrow> distinct ps"
  and index_ok_lru [index_okD]: "index_ok N ring map_ok ti ps \<Longrightarrow> lru_ok (index_view ti ps)"
  and index_ok_tags [index_okD]: "index_ok N ring map_ok ti ps \<Longrightarrow> ti_tags ti = of_nat (length ps)"
  and index_ok_keys [index_okD]:
    "index_ok N ring map_ok ti ps \<Longrightarrow> ti_keys ti = of_nat (key_count (index_view ti ps))"
  and index_ok_get:
    "index_ok N ring map_ok ti ps \<Longrightarrow>
     map_get N (ti_map ti) t = Some p \<longleftrightarrow> p \<in> set ps \<and> tag_at ti p = Some t"
  and index_ok_heap:
    "index_ok N ring map_ok ti ps \<Longrightarrow> p \<in> set ps \<Longrightarrow>
     \<exists>e. ti_heap ti p = Some e \<and> vec_ok (e_keys e)"
  by (simp_all add: index_ok_def)

lemma index_ok_get_entry:
  assumes "index_ok N ring map_ok ti ps" "p \<in> set ps"
  obtains e where "ti_heap ti p = Some e" "vec_ok (e_keys e)"
    "map_get N (ti_map ti) (e_tag e) = Some p" "entry_view ti p = (e_tag e, items (e_keys e))"
proof -
  obtain e where e: "ti_heap ti p = Some e" "vec_ok (e_keys e)"
    using index_ok_heap [OF assms] by blast
  then have "map_get N (ti_map ti) (e_tag e) = Some p"
    using index_ok_get [OF assms(1)] assms(2) by (simp add: tag_at_def)
  with e that show ?thesis by (simp add: entry_view_def)
qed

text \<open>Splitting the entries at the one a tag is stored at.\<close>

lemma index_ok_split:
  assumes ok: "index_ok N ring map_ok ti ps" and get: "map_get N (ti_map ti) t = Some p"
  obtains us vs e where "ps = us @ p # vs" "p \<notin> set us" "p \<notin> set vs"
    "ti_heap ti p = Some e" "e_tag e = t" "vec_ok (e_keys e)"
    "entry_view ti p = (t, items (e_keys e))"
    "t \<notin> fst ` set (index_view ti us)" "t \<notin> fst ` set (index_view ti vs)"
proof -
  have p: "p \<in> set ps" "tag_at ti p = Some t" using index_ok_get [OF ok] get by auto
  then obtain us vs where ps: "ps = us @ p # vs" by (meson split_list)
  obtain e where e: "ti_heap ti p = Some e" "vec_ok (e_keys e)"
    using index_ok_heap [OF ok p(1)] by blast
  have t: "e_tag e = t" using p(2) e(1) by (simp add: tag_at_def)
  then have v: "entry_view ti p = (t, items (e_keys e))" using e by (simp add: entry_view_def)
  have "distinct (map fst (index_view ti us @ (t, items (e_keys e)) # index_view ti vs))"
    using index_ok_lru [OF ok] ps v by (simp add: lru_ok_def)
  then have "t \<notin> fst ` set (index_view ti us)" "t \<notin> fst ` set (index_view ti vs)" by auto
  moreover have "p \<notin> set us" "p \<notin> set vs" using index_ok_distinct [OF ok] ps by auto
  ultimately show ?thesis using that ps e t v by blast
qed

lemma index_ok_absent:
  assumes ok: "index_ok N ring map_ok ti ps" and "map_get N (ti_map ti) t = None"
  shows "t \<notin> fst ` set (index_view ti ps)"
proof
  assume "t \<in> fst ` set (index_view ti ps)"
  then obtain p where p: "p \<in> set ps" "fst (entry_view ti p) = t" by (auto simp: index_view_def)
  then show False
    using assms(2) by (elim index_ok_get_entry [OF ok]) auto
qed

text \<open>The map and the view agree on every tag.\<close>

lemma index_ok_lookup:
  assumes ok: "index_ok N ring map_ok ti ps"
  shows "map_of (index_view ti ps) t =
    (case map_get N (ti_map ti) t of
       None \<Rightarrow> None | Some p \<Rightarrow> Some (snd (entry_view ti p)))"
proof (cases "map_get N (ti_map ti) t")
  case None
  then show ?thesis using index_ok_absent [OF ok] by (simp add: map_of_eq_None_iff)
next
  case (Some p)
  obtain us vs e where s: "ps = us @ p # vs" "p \<notin> set us" "p \<notin> set vs" "ti_heap ti p = Some e"
    "e_tag e = t" "vec_ok (e_keys e)" "entry_view ti p = (t, items (e_keys e))"
    "t \<notin> fst ` set (index_view ti us)" "t \<notin> fst ` set (index_view ti vs)"
    by (rule index_ok_split [OF ok Some])
  show ?thesis using Some s(1,7) map_of_split [OF s(8,9)] by simp
qed

lemma index_ok_lookup_None:
  "index_ok N ring map_ok ti ps \<Longrightarrow>
   map_of (index_view ti ps) t = None \<longleftrightarrow> map_get N (ti_map ti) t = None"
  by (simp add: index_ok_lookup split: option.splits)


section \<open>Each operation keeps the invariant\<close>

definition entry_unlinked ::
  "('a, 'm, 'q) ngx \<Rightarrow> ('m, 'q) tag_index \<Rightarrow> addr \<Rightarrow> 'm \<Rightarrow> entry \<Rightarrow> u64 \<Rightarrow> ('m, 'q) tag_index" where
  "entry_unlinked N ti p m e n =
     ti\<lparr>ti_map := m, ti_heap := (ti_heap ti)(p := None),
        ti_lru := queue_remove N (ti_lru ti) (Link p), ti_tags := ti_tags ti - 1,
        ti_keys := ti_keys ti - of_nat (length (items (e_keys e))), ti_evicted := n\<rparr>"

text \<open>
  The result of an insert that has evicted \<open>m\<close> tags out of at most \<open>n\<close>, from the list \<open>L\<close>:
  on success the key is recorded in what the evictions left; on failure the evictions are all
  that happened, and they ran out of attempts or of tags.
\<close>

definition insert_result ::
  "nat \<Rightarrow> bytes \<Rightarrow> cache_key \<Rightarrow> lru \<Rightarrow> nat \<Rightarrow> unit outcome \<Rightarrow> lru \<Rightarrow> bool" where
  "insert_result n tag key L m r L' \<longleftrightarrow>
     m \<le> length L
     \<and> (case r of
          Inr u \<Rightarrow> m < n \<and> L' = lru_record tag key (lru_evict m L)
        | Inl e \<Rightarrow> m \<le> n \<and> L' = lru_evict m L \<and> (m = n \<or> L' = []))"

definition shed_count :: "unit outcome \<Rightarrow> bytes \<Rightarrow> cache_key \<Rightarrow> lru \<Rightarrow> u64" where
  "shed_count r tag key L = (case r of Inr u \<Rightarrow> of_bool (lru_sheds tag key L) | Inl e \<Rightarrow> 0)"

text \<open>
  Growing a tag: it is in front when the evictions start, so it keeps its keys until it is the
  only one left; one eviction more takes it too.
\<close>

lemma insert_result_grown:
  assumes "lru_ok L" "map_of L tag = Some ks"
    and "insert_result n tag key (lru_touch tag L) m (Inr u) L'"
  shows "m < n \<and> m \<le> length L
    \<and> (if m = length L then L' = [(tag, [key])] else map_of L' tag = Some (add_key key ks))"
proof -
  obtain A B where L: "L = A @ (tag, ks) # B" "tag \<notin> fst ` set A" "tag \<notin> fst ` set B"
    by (rule lru_obtain_split [OF assms(1,2)])
  have t: "lru_touch tag L = (tag, ks) # A @ B" using L by (simp add: lru_simps)
  have r: "m < n" "m \<le> length L" "L' = lru_record tag key (take (length L - m) ((tag, ks) # A @ B))"
    using assms(3) unfolding insert_result_def t lru_evict_take by (simp_all add: L(1))
  show ?thesis
  proof (cases "m = length L")
    case True
    then show ?thesis using r by (simp add: lru_record_def)
  next
    case False
    then obtain j where "length L - m = Suc j" using r(2) by (metis Suc_diff_Suc le_neq_implies_less)
    then show ?thesis using r False by (simp add: lru_record_def)
  qed
qed

lemma of_nat_Suc_word: "(of_nat (Suc n) :: usize) = of_nat n + 1"
  by simp

context ngx_env
begin

lemma touch_ok:
  assumes ok: "index_ok N ring map_ok ti ps" and get: "map_get N (ti_map ti) t = Some p"
  shows "index_ok N ring map_ok (touch N (Link p) ti) (p # remove1 p ps)"
    and "index_view (touch N (Link p) ti) (p # remove1 p ps) = lru_touch t (index_view ti ps)"
proof -
  obtain us vs e where s: "ps = us @ p # vs" "p \<notin> set us" "p \<notin> set vs" "ti_heap ti p = Some e"
    "e_tag e = t" "vec_ok (e_keys e)" "entry_view ti p = (t, items (e_keys e))"
    "t \<notin> fst ` set (index_view ti us)" "t \<notin> fst ` set (index_view ti vs)"
    by (rule index_ok_split [OF ok get])
  let ?ti = "touch N (Link p) ti" and ?ps = "p # us @ vs"
  have r: "remove1 p ps = us @ vs" using s by (simp add: remove1_append)
  have heap: "index_view ?ti qs = index_view ti qs" for qs
    by (rule index_view_cong) (simp add: touch_def)
  show view: "index_view ?ti (p # remove1 p ps) = lru_touch t (index_view ti ps)"
    unfolding heap r unfolding s(1) by (simp add: s(7-9) lru_simps)
  have "ring (ti_lru ?ti) ?ps"
    using ring_touch [OF index_ok_ring [OF ok] index_ok_distinct [OF ok], of p] s(1) r
    by (simp add: touch_def)
  moreover have "lru_ok (index_view ?ti ?ps)"
    using lru_ok_touch [OF index_ok_lru [OF ok]] view r by metis
  moreover have "key_count (index_view ?ti ?ps) = key_count (index_view ti ps)"
    unfolding heap s(1) by simp
  ultimately show "index_ok N ring map_ok ?ti (p # remove1 p ps)"
    using ok s(1) unfolding r by (auto simp: index_ok_def touch_def)
qed

lemma create_ok:
  assumes ok: "index_ok N ring map_ok ti ps" and get: "map_get N (ti_map ti) tag = None"
    and tag: "tag \<noteq> []" "length tag \<le> MAX_TAG_LEN"
    and c: "create N tag key (ti, a) = (r, ti', a')"
  shows "(case r of
      Inl e \<Rightarrow> ti' = ti
    | Inr u \<Rightarrow> \<exists>p. index_ok N ring map_ok ti' (p # ps)
        \<and> index_view ti' (p # ps) = lru_record tag key (index_view ti ps)
        \<and> ti_evicted ti' = ti_evicted ti \<and> ti_dropped ti' = ti_dropped ti)"
proof (cases r)
  case (Inl e)
  then show ?thesis using c by (auto simp: create_def Let_def split: prod.splits bool.splits option.splits)
next
  case (Inr u)
  then obtain keys a2 a3 slot m' a4 where
    k: "vec_try_reserve N new_vec a2 = (Some keys, a3)" and
    m: "map_try_insert N (ti_map ti) tag a3 = (Some (slot, m'), a4)" and
    ti': "ti' = ti\<lparr>ti_map := m',
        ti_heap := (ti_heap ti)(slot \<mapsto> \<lparr>e_tag = tag, e_keys = keys\<lparr>items := items keys @ [key]\<rparr>\<rparr>),
        ti_lru := queue_insert_after N (ti_lru ti) Head (Link slot),
        ti_tags := ti_tags ti + 1, ti_keys := ti_keys ti + 1\<rparr>"
    using c by (auto simp: create_def Let_def split: prod.splits bool.splits option.splits)
  have keys: "items keys = []" "0 < capacity keys" using reserve_ok [OF k] by (simp_all add: new_vec_def)
  have ins: "map_ok m'" "slot \<notin> ran (map_get N (ti_map ti))" "map_get N m' = (map_get N (ti_map ti))(tag \<mapsto> slot)"
    using map_insert [OF index_ok_map [OF ok] get m] by auto
  have fresh: "slot \<notin> set ps"
  proof
    assume "slot \<in> set ps"
    then show False using ins(2) by (elim index_ok_get_entry [OF ok]) (auto simp: ran_def)
  qed
  have old: "index_view ti' ps = index_view ti ps"
    using fresh by (intro index_view_cong) (auto simp: ti')
  have new: "entry_view ti' slot = (tag, [key])" by (simp add: ti' entry_view_def keys)
  have absent: "tag \<notin> fst ` set (index_view ti ps)" by (rule index_ok_absent [OF ok get])
  then have view: "index_view ti' (slot # ps) = lru_record tag key (index_view ti ps)"
    by (simp add: old new lru_record_def iffD2 [OF map_of_eq_None_iff])
  have "ring (ti_lru ti') (slot # ps)"
    using ring_insert_after [OF index_ok_ring [OF ok] fresh] by (simp add: ti')
  moreover have "lru_ok (index_view ti' (slot # ps))"
    using lru_ok_record [OF index_ok_lru [OF ok] tag] view by simp
  moreover have "(map_get N (ti_map ti') t = Some p)
      = (p \<in> set (slot # ps) \<and> tag_at ti' p = Some t)" for t p
    using index_ok_get [OF ok, of t p] ins(3) fresh absent get
    by (auto simp: ti' tag_at_def split: if_splits)
  ultimately have "index_ok N ring map_ok ti' (slot # ps)"
    using ok fresh ins(1) old new keys
    by (auto simp: index_ok_def vec_ok_def of_nat_Suc_word) (auto simp: ti')
  then show ?thesis using Inr view by (auto simp: ti' simp del: index_view_simps)
qed

text \<open>
  Rewriting an entry's keys in place: the map, the links and the other entries stay. The
  counter of keys is given as the new count.
\<close>

lemma rewrite_keys_ok:
  assumes ok: "index_ok N ring map_ok ti ps"
    and s: "ps = us @ p # vs" "p \<notin> set us" "p \<notin> set vs" "ti_heap ti p = Some e"
      "e_tag e = tag" "vec_ok (e_keys e)" "entry_view ti p = (tag, items (e_keys e))"
      "tag \<notin> fst ` set (index_view ti us)" "tag \<notin> fst ` set (index_view ti vs)"
    and v: "items v = add_key key (items (e_keys e))" "vec_ok v"
    and ti': "ti' = ti\<lparr>ti_heap := (ti_heap ti)(p \<mapsto> e\<lparr>e_keys := v\<rparr>), ti_dropped := d, ti_keys := n\<rparr>"
    and n: "n = ti_keys ti + (of_nat (length (items v)) - of_nat (length (items (e_keys e))))"
  shows "index_ok N ring map_ok ti' ps"
    and "index_view ti' ps = lru_record tag key (index_view ti ps)"
proof -
  have rest: "index_view ti' us = index_view ti us" "index_view ti' vs = index_view ti vs"
    using s(2,3) by (auto intro!: index_view_cong simp: ti')
  have new: "entry_view ti' p = (tag, add_key key (items (e_keys e)))"
    by (simp add: ti' entry_view_def s v)
  show view: "index_view ti' ps = lru_record tag key (index_view ti ps)"
    unfolding s(1) using rest new s(7) by (simp add: lru_record_split [OF s(8,9)])
  have "fst (entry_view ti p) \<noteq> [] \<and> length (fst (entry_view ti p)) \<le> MAX_TAG_LEN"
    using index_ok_lru [OF ok] s(1) by (simp add: lru_ok_def)
  then have "lru_ok (index_view ti' ps)"
    unfolding view using index_ok_lru [OF ok] s(7) by (intro lru_ok_record) auto
  moreover have "n = of_nat (key_count (index_view ti' ps))"
    using index_ok_keys [OF ok] rest new s(7) by (simp add: n v s(1))
  moreover have "tag_at ti' q = tag_at ti q" for q by (simp add: ti' tag_at_def s)
  moreover have "\<exists>e'. ti_heap ti' q = Some e' \<and> vec_ok (e_keys e')" if "q \<in> set ps" for q
    using index_ok_heap [OF ok that] v(2) by (auto simp: ti')
  moreover have "ti_lru ti' = ti_lru ti" "ti_map ti' = ti_map ti" "ti_tags ti' = ti_tags ti" "ti_keys ti' = n"
    by (simp_all add: ti')
  ultimately show "index_ok N ring map_ok ti' ps"
    using ok unfolding index_ok_def by (metis (no_types, lifting))
qed

text \<open>
  The new-key branch of \<open>append_key\<close> as one equation: \<open>shed\<close> is the vector after the oldest
  key of a full tag has gone, \<open>full\<close> whether it has.
\<close>

lemma append_key_new:
  fixes ti :: "('m, 'q) tag_index"
  assumes "map_get N (ti_map ti) tag = Some p" "ti_heap ti p = Some e" "key \<notin> set (items (e_keys e))"
    and "full = (MAX_KEYS_PER_TAG \<le> length (items (e_keys e)))"
    and "shed = (if full then (e_keys e)\<lparr>items := tl (items (e_keys e))\<rparr> else e_keys e)"
  shows "append_key N tag key (ti, a) =
      (case vec_try_reserve N shed a of
         (None, a') \<Rightarrow> Some (Inl AllocError,
             ti\<lparr>ti_heap := (ti_heap ti)(p \<mapsto> e\<lparr>e_keys := shed\<rparr>)\<rparr>, a')
       | (Some v, a') \<Rightarrow> Some (Inr (),
             ti\<lparr>ti_heap := (ti_heap ti)(p \<mapsto> e\<lparr>e_keys := v\<lparr>items := items v @ [key]\<rparr>\<rparr>),
                ti_dropped := ti_dropped ti + of_bool full,
                ti_keys := ti_keys ti + (1 - of_bool full)\<rparr>, a'))"
  unfolding append_key_def assms(4,5) using assms(1-3) by (auto split: prod.split option.split)

text \<open>
  A full tag has capacity to spare once its oldest key has gone, so the reservation cannot
  fail after a key has been shed: a failing append changes nothing.
\<close>

lemma reserve_full:
  assumes "vec_ok v" "MAX_KEYS_PER_TAG \<le> length (items v)"
  shows "vec_try_reserve N (v\<lparr>items := tl (items v)\<rparr>) a = (Some (v\<lparr>items := tl (items v)\<rparr>), a)"
proof -
  have "items v \<noteq> []" using assms(2) by (auto simp: MAX_KEYS_PER_TAG_def)
  then show ?thesis
    using assms(1) by (intro reserve_room) (cases "items v"; simp add: vec_ok_def)
qed

lemma append_key_new_ok:
  assumes ok: "index_ok N ring map_ok ti ps"
    and s: "ps = us @ p # vs" "p \<notin> set us" "p \<notin> set vs" "ti_heap ti p = Some e"
      "e_tag e = tag" "vec_ok (e_keys e)" "entry_view ti p = (tag, items (e_keys e))"
      "tag \<notin> fst ` set (index_view ti us)" "tag \<notin> fst ` set (index_view ti vs)"
    and full: "full = (MAX_KEYS_PER_TAG \<le> length (items (e_keys e)))"
    and shed: "shed = (if full then (e_keys e)\<lparr>items := tl (items (e_keys e))\<rparr> else e_keys e)"
    and res: "vec_try_reserve N shed a = (Some v, a')" and new: "key \<notin> set (items (e_keys e))"
    and ti': "ti' = ti\<lparr>ti_heap := (ti_heap ti)(p \<mapsto> e\<lparr>e_keys := v\<lparr>items := items v @ [key]\<rparr>\<rparr>),
                ti_dropped := ti_dropped ti + of_bool full,
                ti_keys := ti_keys ti + (1 - of_bool full)\<rparr>"
  shows "index_ok N ring map_ok ti' ps \<and> index_view ti' ps = lru_record tag key (index_view ti ps)"
proof -
  let ?v = "v\<lparr>items := items v @ [key]\<rparr>" and ?ks = "items (e_keys e)"
  have v: "items v = items shed" "length (items shed) < capacity v" using reserve_ok [OF res] by auto
  have i: "items ?v = add_key key ?ks" "vec_ok ?v"
    using v new by (simp_all add: shed full add_key_def vec_ok_def)
  have "full \<Longrightarrow> ?ks \<noteq> []" by (auto simp: full MAX_KEYS_PER_TAG_def)
  then have "(1 - of_bool full :: usize) = of_nat (length (items ?v)) - of_nat (length ?ks)"
    using v(1) by (cases ?ks) (auto simp: shed)
  then have n: "ti_keys ti + (1 - of_bool full)
      = ti_keys ti + (of_nat (length (items ?v)) - of_nat (length ?ks))" by (simp only:)
  show ?thesis
    using rewrite_keys_ok [OF ok s i ti' n] by blast
qed

lemma append_key_ok:
  assumes ok: "index_ok N ring map_ok ti ps" and get: "map_get N (ti_map ti) tag = Some p"
  obtains r ti' a' where "append_key N tag key (ti, a) = Some (r, ti', a')"
    "case r of
       Inl e \<Rightarrow> ti' = ti
     | Inr u \<Rightarrow> index_ok N ring map_ok ti' ps
         \<and> index_view ti' ps = lru_record tag key (index_view ti ps)
         \<and> ti_evicted ti' = ti_evicted ti
         \<and> ti_dropped ti' = ti_dropped ti + of_bool (lru_sheds tag key (index_view ti ps))"
proof -
  obtain us vs e where s: "ps = us @ p # vs" "p \<notin> set us" "p \<notin> set vs" "ti_heap ti p = Some e"
    "e_tag e = tag" "vec_ok (e_keys e)" "entry_view ti p = (tag, items (e_keys e))"
    "tag \<notin> fst ` set (index_view ti us)" "tag \<notin> fst ` set (index_view ti vs)"
    by (rule index_ok_split [OF ok get])
  let ?ks = "items (e_keys e)"
  have look: "map_of (index_view ti ps) tag = Some ?ks"
    using index_ok_lookup [OF ok] get s(7) by simp
  show thesis
  proof (cases "key \<in> set ?ks")
    case True
    have "lru_record tag key (index_view ti ps) = index_view ti ps"
      by (rule lru_record_present [OF index_ok_lru [OF ok] look True])
    moreover have "append_key N tag key (ti, a) = Some (Inr (), ti, a)"
      using True get s(4) by (simp add: append_key_def)
    ultimately show thesis
      using ok True by (intro that [of "Inr ()" ti a]) (simp_all add: lru_sheds_def look)
  next
    case False
    define full where "full = (MAX_KEYS_PER_TAG \<le> length ?ks)"
    define shed where "shed = (if full then (e_keys e)\<lparr>items := tl ?ks\<rparr> else e_keys e)"
    obtain vo a' where vo: "vec_try_reserve N shed a = (vo, a')" by fastforce
    note run = append_key_new [OF get s(4) False full_def shed_def, of a, unfolded vo]
    show thesis
    proof (cases vo)
      case None
      then have "\<not> full" using vo reserve_full [OF s(6)] by (auto simp: shed_def full_def)
      then have "(ti_heap ti)(p \<mapsto> e\<lparr>e_keys := shed\<rparr>) = ti_heap ti"
        using s(4) by (simp add: shed_def fun_upd_idem)
      then show thesis using run None by (intro that [of "Inl AllocError" ti a']) simp_all
    next
      case (Some v)
      note R = append_key_new_ok [OF ok s full_def shed_def vo [unfolded Some] False refl]
      have sheds: "lru_sheds tag key (index_view ti ps) = full"
        using False by (simp add: lru_sheds_def look full_def)
      show thesis
        by (rule that, subst run, simp only: Some option.case prod.case)
          (simp only: sum.case R sheds simp_thms, simp)
    qed
  qed
qed

text \<open>
  Taking an entry out: its link first, then its map slot. Both evictions and \<open>take\<close> do this;
  \<open>entry_unlinked\<close> is the state they leave, with the eviction counter given.
\<close>

lemma unlink_ok:
  assumes ok: "index_ok N ring map_ok ti ps" and get: "map_get N (ti_map ti) t = Some p"
  obtains m' a' e where "map_remove N (ti_map ti) t a = Some (p, m', a')"
    "ti_heap ti p = Some e" "e_tag e = t" "entry_view ti p = (t, items (e_keys e))"
    "\<forall>n. index_ok N ring map_ok (entry_unlinked N ti p m' e n) (remove1 p ps)
       \<and> index_view (entry_unlinked N ti p m' e n) (remove1 p ps) = lru_remove t (index_view ti ps)"
proof -
  obtain us vs e where s: "ps = us @ p # vs" "p \<notin> set us" "p \<notin> set vs" "ti_heap ti p = Some e"
    "e_tag e = t" "vec_ok (e_keys e)" "entry_view ti p = (t, items (e_keys e))"
    "t \<notin> fst ` set (index_view ti us)" "t \<notin> fst ` set (index_view ti vs)"
    by (rule index_ok_split [OF ok get])
  obtain m' a' where m: "map_remove N (ti_map ti) t a = Some (p, m', a')" "map_ok m'"
    "map_get N m' = (map_get N (ti_map ti))(t := None)"
    using map_remove_present [OF index_ok_map [OF ok] get] by blast
  have r: "remove1 p ps = us @ vs" using s(1,2) by (simp add: remove1_append)
  have fin: "index_ok N ring map_ok (entry_unlinked N ti p m' e n) (us @ vs)
      \<and> index_view (entry_unlinked N ti p m' e n) (us @ vs) = lru_remove t (index_view ti ps)" for n
  proof -
    define ti' where "ti' = entry_unlinked N ti p m' e n"
    note ti' = ti'_def [unfolded entry_unlinked_def]
    have view: "index_view ti' (us @ vs) = index_view ti us @ index_view ti vs"
      unfolding index_view_simps(3)
      using s(2,3) by (intro arg_cong2 [where f = append] index_view_cong) (auto simp: ti')
    also have "\<dots> = lru_remove t (index_view ti ps)" using s(1,7) by (simp add: lru_remove_split [OF s(8,9)])
    finally have view': "index_view ti' (us @ vs) = lru_remove t (index_view ti ps)" .
    have "ring (ti_lru ti') (us @ vs)"
      using ring_remove [OF index_ok_ring [OF ok] index_ok_distinct [OF ok], of p] r s(1) by (simp add: ti')
    moreover have "map_get N (ti_map ti') t' = Some p' \<longleftrightarrow> p' \<in> set (us @ vs) \<and> tag_at ti' p' = Some t'"
      for t' p'
      using index_ok_get [OF ok, of t' p'] get m(3) s(1-5) by (auto simp: ti' tag_at_def)
    moreover have "\<exists>e. ti_heap ti' p' = Some e \<and> vec_ok (e_keys e)" if "p' \<in> set (us @ vs)" for p'
      using index_ok_heap [OF ok, of p'] that s(1-3) by (auto simp: ti')
    moreover have "lru_ok (index_view ti' (us @ vs))"
      unfolding view' by (rule lru_ok_remove [OF index_ok_lru [OF ok]])
    moreover have "ti_tags ti' = of_nat (length (us @ vs))"
      using index_ok_tags [OF ok] s(1) by (simp add: ti')
    moreover have "ti_keys ti' = of_nat (key_count (index_view ti' (us @ vs)))"
      unfolding view using index_ok_keys [OF ok] s(1,7) by (simp add: ti')
    moreover have "distinct (us @ vs)" "map_ok (ti_map ti')"
      using index_ok_distinct [OF ok] s(1) m(2) by (auto simp: ti')
    ultimately have "index_ok N ring map_ok ti' (us @ vs)" unfolding index_ok_def by blast
    with view' show ?thesis by (simp add: ti'_def)
  qed
  show thesis by (rule that [OF m(1) s(4,5,7)]) (simp only: r fin simp_thms)
qed

lemma evict_ok:
  assumes ok: "index_ok N ring map_ok ti ps"
  obtains b ti' a' where "evict N (ti, a) = Some (b, ti', a')"
    "b \<longleftrightarrow> ps \<noteq> []"
    "index_ok N ring map_ok ti' (butlast ps)"
    "index_view ti' (butlast ps) = butlast (index_view ti ps)"
    "ti_evicted ti' = ti_evicted ti + of_bool b" "ti_dropped ti' = ti_dropped ti"
proof (cases "ps = []")
  case True
  then have "evict N (ti, a) = Some (False, ti, a)"
    using ring_prev [OF index_ok_ring [OF ok]] by (simp add: evict_def)
  then show thesis using ok True by (intro that [of False ti a]) simp_all
next
  case False
  define p where "p = last ps"
  have p: "p \<in> set ps" using False by (simp add: p_def)
  then obtain e0 where e0: "ti_heap ti p = Some e0" "map_get N (ti_map ti) (e_tag e0) = Some p"
    "entry_view ti p = (e_tag e0, items (e_keys e0))"
    by (rule index_ok_get_entry [OF ok])
  obtain m' a' e where rm: "map_remove N (ti_map ti) (e_tag e0) a = Some (p, m', a')"
    and e: "ti_heap ti p = Some e" "e_tag e = e_tag e0" "entry_view ti p = (e_tag e0, items (e_keys e))"
    and fin: "\<forall>n. index_ok N ring map_ok (entry_unlinked N ti p m' e n) (remove1 p ps)
       \<and> index_view (entry_unlinked N ti p m' e n) (remove1 p ps) = lru_remove (e_tag e0) (index_view ti ps)"
    by (rule unlink_ok [where a = a, OF ok e0(2)])
  have short: "take (min (length (e_tag e0)) MAX_TAG_LEN) (e_tag e0) = e_tag e0"
  proof -
    have "entry_view ti p \<in> set (index_view ti ps)" using p by (simp add: index_view_def)
    then show ?thesis using index_ok_lru [OF ok] e0(3) by (auto simp: lru_ok_def)
  qed
  have ps: "ps = butlast ps @ [p]" using False by (simp add: p_def)
  then have notin: "p \<notin> set (butlast ps)"
    using index_ok_distinct [OF ok] by (metis distinct_append disjoint_iff list.set_intros(1))
  then have r: "remove1 p ps = butlast ps" by (subst ps) (simp add: remove1_append)
  let ?ti = "entry_unlinked N ti p m' e (ti_evicted ti + 1)"
  have "evict N (ti, a) = Some (True, ?ti, vec_drop N (e_keys e) (string_drop N (e_tag e) a'))"
    using ring_prev [OF index_ok_ring [OF ok]] False e0(1) e(1) rm short
    by (simp add: evict_def entry_unlinked_def Let_def flip: p_def)
  moreover have "lru_remove (e_tag e0) (index_view ti ps) = butlast (index_view ti ps)"
  proof -
    have "index_view ti ps = index_view ti (butlast ps) @ [entry_view ti p]"
      by (subst ps) simp
    moreover from this have "e_tag e0 \<notin> fst ` set (index_view ti (butlast ps))"
      using index_ok_lru [OF ok] e0(3) by (simp add: lru_ok_def)
    ultimately show ?thesis using e0(3) lru_remove_split [of "e_tag e0" "index_view ti (butlast ps)" "[]"] by simp
  qed
  moreover have "ti_evicted ?ti = ti_evicted ti + 1" "ti_dropped ?ti = ti_dropped ti"
    by (simp_all add: entry_unlinked_def)
  ultimately show thesis using fin False unfolding r
    by (intro that [of True ?ti "vec_drop N (e_keys e) (string_drop N (e_tag e) a')"]) simp_all
qed

lemma take_ok:
  assumes ok: "index_ok N ring map_ok ti ps"
  obtains v ti' a' ps' where "index_take N tag (ti, a) = Some (v, ti', a')"
    "map_option items v = map_of (index_view ti ps) tag"
    "index_ok N ring map_ok ti' ps'"
    "index_view ti' ps' = lru_remove tag (index_view ti ps)"
    "ti_evicted ti' = ti_evicted ti" "ti_dropped ti' = ti_dropped ti"
proof (cases "map_get N (ti_map ti) tag")
  case None
  then have "index_take N tag (ti, a) = Some (None, ti, a)" by (simp add: index_take_def)
  moreover have "tag \<notin> fst ` set (index_view ti ps)" by (rule index_ok_absent [OF ok None])
  then have "lru_remove tag (index_view ti ps) = index_view ti ps"
    by (auto simp: lru_remove_def filter_id_conv)
  ultimately show thesis
    using ok None by (intro that [of None ti a ps]) (simp_all add: index_ok_lookup [OF ok])
next
  case (Some p)
  obtain m' a' e where rm: "map_remove N (ti_map ti) tag a = Some (p, m', a')"
    and e: "ti_heap ti p = Some e" "e_tag e = tag" "entry_view ti p = (tag, items (e_keys e))"
    and fin: "\<forall>n. index_ok N ring map_ok (entry_unlinked N ti p m' e n) (remove1 p ps)
       \<and> index_view (entry_unlinked N ti p m' e n) (remove1 p ps) = lru_remove tag (index_view ti ps)"
    by (rule unlink_ok [where a = a, OF ok Some])
  let ?ti = "entry_unlinked N ti p m' e (ti_evicted ti)"
  have "index_take N tag (ti, a) = Some (Some (e_keys e), ?ti, string_drop N (e_tag e) a')"
    using Some e rm by (simp add: index_take_def entry_unlinked_def Let_def)
  moreover have "ti_evicted ?ti = ti_evicted ti" "ti_dropped ?ti = ti_dropped ti"
    by (simp_all add: entry_unlinked_def)
  ultimately show thesis using fin Some e(3)
    by (intro that [of "Some (e_keys e)" ?ti "string_drop N (e_tag e) a'" "remove1 p ps"])
      (simp_all add: index_ok_lookup [OF ok])
qed

text \<open>One round of the loop, before any eviction.\<close>

lemma attempt_ok:
  assumes ok: "index_ok N ring map_ok ti ps" and tag: "tag \<noteq> []" "length tag \<le> MAX_TAG_LEN"
  obtains r ti' a' where
    "(if map_get N (ti_map ti) tag \<noteq> None then append_key N tag key (ti, a)
      else Some (create N tag key (ti, a))) = Some (r, ti', a')"
    "case r of
       Inl e \<Rightarrow> ti' = ti
     | Inr u \<Rightarrow> (\<exists>ps'. index_ok N ring map_ok ti' ps'
           \<and> index_view ti' ps' = lru_record tag key (index_view ti ps))
         \<and> ti_evicted ti' = ti_evicted ti
         \<and> ti_dropped ti' = ti_dropped ti + of_bool (lru_sheds tag key (index_view ti ps))"
proof (cases "map_get N (ti_map ti) tag")
  case None
  obtain r ti' a' where c: "create N tag key (ti, a) = (r, ti', a')" by (metis prod_cases3)
  have "\<not> lru_sheds tag key (index_view ti ps)"
    using index_ok_lookup [OF ok, of tag] None by (simp add: lru_sheds_def)
  then show thesis
    using None c create_ok [OF ok None tag c]
    by (intro that [of r ti' a']) (auto split: sum.splits)
next
  case (Some p)
  obtain r ti' a' where "append_key N tag key (ti, a) = Some (r, ti', a')"
    "case r of
       Inl e \<Rightarrow> ti' = ti
     | Inr u \<Rightarrow> index_ok N ring map_ok ti' ps
         \<and> index_view ti' ps = lru_record tag key (index_view ti ps)
         \<and> ti_evicted ti' = ti_evicted ti
         \<and> ti_dropped ti' = ti_dropped ti + of_bool (lru_sheds tag key (index_view ti ps))"
    by (rule append_key_ok [OF ok Some])
  then show thesis using Some by (intro that [of r ti' a']) (auto split: sum.splits)
qed

lemma insert_attempts_ok:
  assumes ok: "index_ok N ring map_ok ti ps" and tag: "tag \<noteq> []" "length tag \<le> MAX_TAG_LEN"
  shows "\<exists>r ti' a' ps' m. insert_attempts N n tag key (ti, a) = Some (r, ti', a')
    \<and> index_ok N ring map_ok ti' ps'
    \<and> insert_result n tag key (index_view ti ps) m r (index_view ti' ps')
    \<and> ti_evicted ti' = ti_evicted ti + of_nat m
    \<and> ti_dropped ti' = ti_dropped ti + shed_count r tag key (lru_evict m (index_view ti ps))"
  using ok
proof (induction n arbitrary: ti ps a)
  case 0
  then show ?case
    by (intro exI [of _ "Inl AllocError"] exI [of _ ti] exI [of _ a] exI [of _ ps] exI [of _ 0])
      (simp add: insert_result_def shed_count_def)
next
  case (Suc n)
  let ?L = "index_view ti ps"
  obtain r ti1 a1 where run: "(if map_get N (ti_map ti) tag \<noteq> None then append_key N tag key (ti, a)
      else Some (create N tag key (ti, a))) = Some (r, ti1, a1)"
    and res: "case r of
       Inl e \<Rightarrow> ti1 = ti
     | Inr u \<Rightarrow> (\<exists>ps'. index_ok N ring map_ok ti1 ps'
           \<and> index_view ti1 ps' = lru_record tag key ?L)
         \<and> ti_evicted ti1 = ti_evicted ti
         \<and> ti_dropped ti1 = ti_dropped ti + of_bool (lru_sheds tag key ?L)"
    by (rule attempt_ok [OF Suc.prems tag])
  show ?case
  proof (cases r)
    case (Inr u)
    with res obtain ps' where "index_ok N ring map_ok ti1 ps'"
      "index_view ti1 ps' = lru_record tag key ?L" by auto
    then show ?thesis
      using run res Inr
      by (intro exI [of _ r] exI [of _ ti1] exI [of _ a1] exI [of _ ps'] exI [of _ 0])
        (simp add: insert_result_def shed_count_def)
  next
    case (Inl e)
    with res have ti1: "ti1 = ti" by simp
    obtain b ti2 a2 where ev: "evict N (ti, a1) = Some (b, ti2, a2)" "b \<longleftrightarrow> ps \<noteq> []"
      "index_ok N ring map_ok ti2 (butlast ps)" "index_view ti2 (butlast ps) = butlast ?L"
      "ti_evicted ti2 = ti_evicted ti + of_bool b" "ti_dropped ti2 = ti_dropped ti"
      by (rule evict_ok [OF Suc.prems])
    show ?thesis
    proof (cases "ps = []")
      case True
      then show ?thesis
        using run Inl ti1 ev
        by (intro exI [of _ r] exI [of _ ti2] exI [of _ a2] exI [of _ "[]"] exI [of _ 0])
          (simp add: insert_result_def shed_count_def)
    next
      case False
      with ev(2) have b: b by simp
      obtain r' ti' a' ps' m where IH: "insert_attempts N n tag key (ti2, a2) = Some (r', ti', a')"
        "index_ok N ring map_ok ti' ps'"
        "insert_result n tag key (butlast ?L) m r' (index_view ti' ps')"
        "ti_evicted ti' = ti_evicted ti2 + of_nat m"
        "ti_dropped ti' = ti_dropped ti2 + shed_count r' tag key (lru_evict m (butlast ?L))"
        using Suc.IH [OF ev(3), of a2] unfolding ev(4) by blast
      have "insert_result (Suc n) tag key ?L (Suc m) r' (index_view ti' ps')"
      proof -
        have "length (butlast ?L) = length ?L - 1" "0 < length ?L" using False by simp_all
        then have "m \<le> length (butlast ?L) \<Longrightarrow> Suc m \<le> length ?L" by linarith
        then show ?thesis using IH(3)
          by (auto simp: insert_result_def lru_evict_Suc simp del: length_butlast split: sum.splits)
      qed
      moreover have "insert_attempts N (Suc n) tag key (ti, a) = Some (r', ti', a')"
        using run Inl ti1 ev(1) b IH(1) by simp
      ultimately show ?thesis
        using IH(2,4,5) ev(5,6) b
        by (intro exI [of _ r'] exI [of _ ti'] exI [of _ a'] exI [of _ ps'] exI [of _ "Suc m"])
          (simp add: lru_evict_Suc)
    qed
  qed
qed

lemma insert_ok:
  assumes ok: "index_ok N ring map_ok ti ps" and tag: "tag \<noteq> []" "length tag \<le> MAX_TAG_LEN"
  shows "\<exists>r ti' a' ps' m. index_insert N tag key (ti, a) = Some (r, ti', a')
    \<and> index_ok N ring map_ok ti' ps'
    \<and> insert_result EVICT_ATTEMPTS tag key (lru_touch tag (index_view ti ps)) m r (index_view ti' ps')
    \<and> ti_evicted ti' = ti_evicted ti + of_nat m
    \<and> ti_dropped ti' = ti_dropped ti
        + shed_count r tag key (lru_evict m (lru_touch tag (index_view ti ps)))"
proof (cases "map_get N (ti_map ti) tag")
  case None
  then have "lru_touch tag (index_view ti ps) = index_view ti ps"
    using index_ok_lookup_None [OF ok] by (simp add: lru_touch_id)
  then show ?thesis
    using insert_attempts_ok [OF ok tag, of EVICT_ATTEMPTS key a] None tag
    by (simp add: index_insert_def)
next
  case (Some p)
  have "ti_evicted (touch N (Link p) ti) = ti_evicted ti" "ti_dropped (touch N (Link p) ti) = ti_dropped ti"
    by (simp_all add: touch_def)
  then show ?thesis
    using insert_attempts_ok [OF touch_ok(1) [OF ok Some] tag, of EVICT_ATTEMPTS key a] Some tag
    by (simp add: index_insert_def touch_ok(2) [OF ok Some] del: index_view_simps)
qed

lemma insert_bad_tag:
  "tag = [] \<or> MAX_TAG_LEN < length tag \<Longrightarrow> index_insert N tag key s = Some (Inl AllocError, s)"
  by (auto simp: index_insert_def)

end

end
