(* ===== verification/Index_Zone.thy ===== *)
theory Index_Zone
  imports Tag_Index_Refine
begin

text \<open>
  The shared-memory zone that holds the index (\<open>shared\<close> of \<open>src/index.rs\<close>,
  \<open>ngx_http_xkey_zone_init\<close> of \<open>src/lib.rs\<close>) and the index operations as the module's other parts
  call them, under the write lock. The lock makes each call one step: the model takes and
  returns the whole zone.

  The locale \<open>tag_store\<close> is what those other parts rely on: a zone stands for a list of tags,
  recording and taking act on that list, and nothing faults. Its lemmas are about recording a
  whole header; \<open>ngx_env\<close> is a sublocale through the zone operations below.
\<close>

record ('a, 'm, 'q) zone =
  z_slab :: "'a option"
  z_data :: "('m, 'q) tag_index option"
  z_log_nomem :: bool

text \<open>
  \<open>z_slab\<close> is None when \<open>SlabPool::from_shm_zone\<close> finds no pool, \<open>z_data\<close> is None while the
  pool's \<open>data\<close> pointer is null. The new index is zeroed first and its queue head initialised
  once it has been placed.
\<close>

definition shared ::
  "('a, 'm, 'q) ngx \<Rightarrow> ('a, 'm, 'q) zone \<Rightarrow> (int + ('m, 'q) tag_index) \<times> ('a, 'm, 'q) zone" where
  "shared N z =
     (case z_slab z of
        None \<Rightarrow> (Inl NGX_ERROR, z)
      | Some a \<Rightarrow>
      (case z_data z of
        Some ti \<Rightarrow> (Inr ti, z)
      | None \<Rightarrow>
      (case map_try_new N a of
        (None, a1) \<Rightarrow> (Inl NGX_ERROR, z\<lparr>z_slab := Some a1\<rparr>)
      | (Some m, a1) \<Rightarrow>
          (let index = \<lparr>ti_map = m, ti_heap = Map.empty, ti_lru = queue_zeroed N, ti_tags = 0,
                        ti_keys = 0, ti_evicted = 0, ti_dropped = 0\<rparr>
           in case alloc_shared N a1 of
                (False, a2) \<Rightarrow> (Inl NGX_ERROR, z\<lparr>z_slab := Some (map_drop N m a2)\<rparr>)
              | (True, a2) \<Rightarrow>
                  (let index' = index\<lparr>ti_lru := queue_init N (ti_lru index)\<rparr>
                   in (Inr index', z\<lparr>z_slab := Some a2, z_data := Some index',
                                     z_log_nomem := False\<rparr>))))))"

definition zone_init :: "('a, 'm, 'q) ngx \<Rightarrow> ('a, 'm, 'q) zone \<Rightarrow> int \<times> ('a, 'm, 'q) zone" where
  "zone_init N z = (case shared N z of (Inr _, z') \<Rightarrow> (NGX_OK, z') | (Inl e, z') \<Rightarrow> (e, z'))"

text \<open>An operation on the index a zone holds, under the write lock.\<close>

definition locked ::
  "(('a, 'm, 'q) pool \<Rightarrow> ('r \<times> ('a, 'm, 'q) pool) option) \<Rightarrow> 'r \<Rightarrow> ('a, 'm, 'q) zone \<Rightarrow>
   ('r \<times> ('a, 'm, 'q) zone) option" where
  "locked f none z =
     (case (z_data z, z_slab z) of
        (Some ti, Some a) \<Rightarrow>
          (case f (ti, a) of
             None \<Rightarrow> None
           | Some (r, ti', a') \<Rightarrow> Some (r, z\<lparr>z_data := Some ti', z_slab := Some a'\<rparr>))
      | _ \<Rightarrow> Some (none, z))"

definition zone_insert ::
  "('a, 'm, 'q) ngx \<Rightarrow> bytes \<Rightarrow> cache_key \<Rightarrow> ('a, 'm, 'q) zone \<Rightarrow>
   (unit outcome \<times> ('a, 'm, 'q) zone) option" where
  "zone_insert N tag key z = locked (index_insert N tag key) (Inl AllocError) z"

definition zone_take ::
  "('a, 'm, 'q) ngx \<Rightarrow> bytes \<Rightarrow> ('a, 'm, 'q) zone \<Rightarrow>
   (key_vec option \<times> ('a, 'm, 'q) zone) option" where
  "zone_take N tag z = locked (index_take N tag) None z"

text \<open>A usable zone: its pool is there, its index placed, and it stands for the list \<open>L\<close>.\<close>

definition zone_rel ::
  "('a, 'm, 'q) ngx \<Rightarrow> ('q \<Rightarrow> addr list \<Rightarrow> bool) \<Rightarrow> ('m \<Rightarrow> bool) \<Rightarrow>
   ('a, 'm, 'q) zone \<Rightarrow> lru \<Rightarrow> bool" where
  "zone_rel N ring map_ok z L \<longleftrightarrow>
     z_slab z \<noteq> None
     \<and> (\<exists>ti ps. z_data z = Some ti \<and> index_ok N ring map_ok ti ps \<and> L = index_view ti ps)"

text \<open>Recording one key under several tags; whether any of them was recorded.\<close>

fun insert_each ::
  "(bytes \<Rightarrow> cache_key \<Rightarrow> 'z \<Rightarrow> (unit outcome \<times> 'z) option) \<Rightarrow> cache_key \<Rightarrow> bytes list \<Rightarrow> 'z \<Rightarrow>
   (bool \<times> 'z) option" where
  "insert_each ins key [] z = Some (False, z)"
| "insert_each ins key (t # ts) z =
     (case ins t key z of
        None \<Rightarrow> None
      | Some (r, z1) \<Rightarrow>
          (case insert_each ins key ts z1 of
             None \<Rightarrow> None
           | Some (wrote, z2) \<Rightarrow> Some (\<not> isl r \<or> wrote, z2)))"

text \<open>
  What the workers do to a placed index, call by call; \<open>FreeKeys\<close> is the drop of a vector that a
  purge has taken out.
\<close>

datatype zone_call = InsertTag bytes cache_key | TakeTag bytes | FreeKeys key_vec

fun zone_calls ::
  "('a, 'm, 'q) ngx \<Rightarrow> zone_call list \<Rightarrow> ('a, 'm, 'q) zone \<Rightarrow> ('a, 'm, 'q) zone option" where
  "zone_calls N [] z = Some z"
| "zone_calls N (InsertTag tag key # cs) z =
     (case zone_insert N tag key z of None \<Rightarrow> None | Some (r, z') \<Rightarrow> zone_calls N cs z')"
| "zone_calls N (TakeTag tag # cs) z =
     (case zone_take N tag z of None \<Rightarrow> None | Some (v, z') \<Rightarrow> zone_calls N cs z')"
| "zone_calls N (FreeKeys v # cs) z =
     zone_calls N cs (z\<lparr>z_slab := map_option (vec_drop N v) (z_slab z)\<rparr>)"

section \<open>The interface of the tag store\<close>

locale tag_store =
  fixes rel :: "'z \<Rightarrow> lru \<Rightarrow> bool"
    and ins :: "bytes \<Rightarrow> cache_key \<Rightarrow> 'z \<Rightarrow> (unit outcome \<times> 'z) option"
    and tak :: "bytes \<Rightarrow> 'z \<Rightarrow> (key_vec option \<times> 'z) option"
  assumes rel_ok: "rel z L \<Longrightarrow> lru_ok L"
    and ins_law:
      "rel z L \<Longrightarrow> tag \<noteq> [] \<Longrightarrow> length tag \<le> MAX_TAG_LEN \<Longrightarrow>
       \<exists>r z' L' m. ins tag key z = Some (r, z') \<and> rel z' L'
         \<and> insert_result EVICT_ATTEMPTS tag key (lru_touch tag L) m r L'"
    and ins_bad:
      "tag = [] \<or> MAX_TAG_LEN < length tag \<Longrightarrow> ins tag key z = Some (Inl AllocError, z)"
    and tak_law:
      "rel z L \<Longrightarrow> \<exists>v z'. tak tag z = Some (v, z') \<and> map_option items v = map_of L tag
         \<and> rel z' (lru_remove tag L)"
begin

text \<open>What an insert can add: only the pair it was given.\<close>

lemma insert_result_sound:
  assumes "lru_ok L" "insert_result n tag key (lru_touch tag L) m r L'" "map_of L' t = Some ks" "k \<in> set ks"
  shows "(t = tag \<and> k = key) \<or> (\<exists>ks0. map_of L t = Some ks0 \<and> k \<in> set ks0)"
proof -
  let ?E = "lru_evict m (lru_touch tag L)"
  have E: "lru_ok ?E" using assms(1) by (simp add: lru_ok_evict lru_ok_touch)
  have old: "map_of L t' = Some ks'" if "map_of ?E t' = Some ks'" for t' ks'
    using map_of_evict [OF lru_ok_touch [OF assms(1)] that] map_of_touch [OF assms(1)] by simp
  show ?thesis
  proof (cases r)
    case (Inl e)
    then show ?thesis using assms(2-4) old by (auto simp: insert_result_def)
  next
    case (Inr u)
    then have L': "L' = lru_record tag key ?E" using assms(2) by (simp add: insert_result_def)
    show ?thesis
    proof (cases "t = tag")
      case False
      then show ?thesis using assms(3,4) old by (simp add: L' map_of_record [OF E])
    next
      case True
      then show ?thesis
        using assms(3,4) old [of tag] set_add_key [of key]
        by (auto simp: L' map_of_record [OF E] split: option.splits)
    qed
  qed
qed

lemma ins_sound:
  assumes "rel z L"
  shows "\<exists>r z' L'. ins tag key z = Some (r, z') \<and> rel z' L'
    \<and> (\<forall>t ks k. map_of L' t = Some ks \<longrightarrow> k \<in> set ks \<longrightarrow>
         (t = tag \<and> k = key) \<or> (\<exists>ks0. map_of L t = Some ks0 \<and> k \<in> set ks0))"
proof (cases "tag = [] \<or> MAX_TAG_LEN < length tag")
  case True
  then show ?thesis using assms ins_bad by blast
next
  case False
  then show ?thesis
    using ins_law [OF assms, of tag key] insert_result_sound [OF rel_ok [OF assms]] by (metis linorder_not_le)
qed

text \<open>Recording a header never faults, and adds only its own pairs.\<close>

lemma insert_each_sound:
  "rel z L \<Longrightarrow> \<exists>w z' L'. insert_each ins key ts z = Some (w, z') \<and> rel z' L'
    \<and> (\<forall>t ks k. map_of L' t = Some ks \<longrightarrow> k \<in> set ks \<longrightarrow>
         (t \<in> set ts \<and> k = key) \<or> (\<exists>ks0. map_of L t = Some ks0 \<and> k \<in> set ks0))"
proof (induction ts arbitrary: z L)
  case (Cons t0 ts)
  obtain r z1 L1 where 1: "ins t0 key z = Some (r, z1)" "rel z1 L1"
    "\<forall>t ks k. map_of L1 t = Some ks \<longrightarrow> k \<in> set ks \<longrightarrow>
         (t = t0 \<and> k = key) \<or> (\<exists>ks0. map_of L t = Some ks0 \<and> k \<in> set ks0)"
    using ins_sound [OF Cons.prems, of t0 key] by blast
  obtain w z2 L2 where 2: "insert_each ins key ts z1 = Some (w, z2)" "rel z2 L2"
    "\<forall>t ks k. map_of L2 t = Some ks \<longrightarrow> k \<in> set ks \<longrightarrow>
         (t \<in> set ts \<and> k = key) \<or> (\<exists>ks0. map_of L1 t = Some ks0 \<and> k \<in> set ks0)"
    using Cons.IH [OF 1(2)] by blast
  have "insert_each ins key (t0 # ts) z = Some (\<not> isl r \<or> w, z2)" using 1(1) 2(1) by simp
  moreover have "\<forall>t ks k. map_of L2 t = Some ks \<longrightarrow> k \<in> set ks \<longrightarrow>
         (t \<in> set (t0 # ts) \<and> k = key) \<or> (\<exists>ks0. map_of L t = Some ks0 \<and> k \<in> set ks0)"
    using 1(3) 2(3) by (metis list.set_intros)
  ultimately show ?case using 2(2) by blast
qed auto

end

section \<open>The model's index provides the interface\<close>

context ngx_env
begin

lemma zone_insert_rel:
  assumes "zone_rel N ring map_ok z L" "tag \<noteq> []" "length tag \<le> MAX_TAG_LEN"
  shows "\<exists>r z' L' m. zone_insert N tag key z = Some (r, z') \<and> zone_rel N ring map_ok z' L'
    \<and> insert_result EVICT_ATTEMPTS tag key (lru_touch tag L) m r L'"
proof -
  obtain ti ps a where z: "z_data z = Some ti" "z_slab z = Some a"
    and ok: "index_ok N ring map_ok ti ps" and L: "L = index_view ti ps"
    using assms(1) by (auto simp: zone_rel_def)
  show ?thesis
    using insert_ok [OF ok assms(2,3), of key a] z L
    by (fastforce simp: zone_insert_def locked_def zone_rel_def)
qed

lemma zone_insert_bad:
  "tag = [] \<or> MAX_TAG_LEN < length tag \<Longrightarrow> zone_insert N tag key z = Some (Inl AllocError, z)"
  by (simp add: zone_insert_def locked_def insert_bad_tag split: option.split)

lemma zone_take_rel:
  assumes "zone_rel N ring map_ok z L"
  shows "\<exists>v z'. zone_take N tag z = Some (v, z') \<and> map_option items v = map_of L tag
    \<and> zone_rel N ring map_ok z' (lru_remove tag L)"
proof -
  obtain ti ps a where z: "z_data z = Some ti" "z_slab z = Some a"
    and ok: "index_ok N ring map_ok ti ps" and L: "L = index_view ti ps"
    using assms(1) by (auto simp: zone_rel_def)
  show ?thesis
    by (rule take_ok [OF ok, of tag a])
      (use z L in \<open>auto simp: zone_take_def locked_def zone_rel_def\<close>)
qed

lemma zone_rel_ok: "zone_rel N ring map_ok z L \<Longrightarrow> lru_ok L"
  by (auto simp: zone_rel_def dest: index_ok_lru)

lemma shared_fresh:
  assumes "z_data z = None" "shared N z = (Inr ti, z')"
  shows "zone_rel N ring map_ok z' [] \<and> z_data z' = Some ti"
proof -
  obtain a m a1 a2 where n: "map_try_new N a = (Some m, a1)"
    and ti: "ti = \<lparr>ti_map = m, ti_heap = Map.empty, ti_lru = queue_init N (queue_zeroed N),
        ti_tags = 0, ti_keys = 0, ti_evicted = 0, ti_dropped = 0\<rparr>"
    and z': "z_slab z' = Some a2" "z_data z' = Some ti"
    using assms by (auto simp: shared_def Let_def split: option.splits prod.splits bool.splits)
  have "index_ok N ring map_ok ti []"
    using map_new [OF n] ring_init by (simp add: index_ok_def ti)
  with z' show ?thesis by (force simp: zone_rel_def)
qed

lemma shared_adopts:
  "zone_rel N ring map_ok z L \<Longrightarrow> \<exists>ti. shared N z = (Inr ti, z) \<and> z_data z = Some ti"
  by (auto simp: zone_rel_def shared_def)

lemma zone_rel_slab:
  "zone_rel N ring map_ok z L \<Longrightarrow> zone_rel N ring map_ok (z\<lparr>z_slab := map_option f (z_slab z)\<rparr>) L"
  by (simp add: zone_rel_def)

text \<open>Whatever the calls and whichever allocations fail, none faults and the zone stays usable.\<close>

lemma zone_calls_rel:
  "zone_rel N ring map_ok z L \<Longrightarrow> \<exists>z' L'. zone_calls N cs z = Some z' \<and> zone_rel N ring map_ok z' L'"
proof (induction cs arbitrary: z L)
  case (Cons c cs)
  have "\<exists>z1 L1. zone_calls N (c # cs) z = zone_calls N cs z1 \<and> zone_rel N ring map_ok z1 L1"
  proof (cases c)
    case (InsertTag tag key)
    show ?thesis
    proof (cases "tag \<noteq> [] \<and> length tag \<le> MAX_TAG_LEN")
      case True
      then show ?thesis using zone_insert_rel [OF Cons.prems, of tag key] InsertTag by fastforce
    next
      case False
      then have "zone_insert N tag key z = Some (Inl AllocError, z)" by (intro zone_insert_bad) auto
      then show ?thesis using Cons.prems InsertTag by auto
    qed
  next
    case (TakeTag tag)
    then show ?thesis using zone_take_rel [OF Cons.prems, of tag] by fastforce
  next
    case (FreeKeys v)
    then show ?thesis using zone_rel_slab [OF Cons.prems, of "vec_drop N v"] by auto
  qed
  then show ?case using Cons.IH by metis
qed auto

end

sublocale ngx_env \<subseteq> store: tag_store "zone_rel N ring map_ok" "zone_insert N" "zone_take N"
  by unfold_locales (blast intro: zone_rel_ok zone_insert_rel zone_insert_bad zone_take_rel)+

end
