(* ===== verification/Ngx_Reference.thy ===== *)
theory Ngx_Reference
  imports Index_Zone
begin

text \<open>
  A concrete provider of the container interface, on which the witnesses evaluate: a slab with
  a number of free cells, an association-list map that never reuses an address, and a doubly
  linked ring of next and previous pointers. The interpretation at the end shows that the laws
  of \<open>ngx_env\<close> hold together, for a queue of real links.
\<close>

section \<open>The ring of links\<close>

record dll =
  nxt :: "link \<Rightarrow> link"
  prv :: "link \<Rightarrow> link"

definition dll_zeroed :: dll where
  "dll_zeroed = \<lparr>nxt = (\<lambda>_. Null), prv = (\<lambda>_. Null)\<rparr>"

definition dll_init :: "dll \<Rightarrow> dll" where
  "dll_init q = q\<lparr>nxt := (nxt q)(Head := Head), prv := (prv q)(Head := Head)\<rparr>"

definition dll_insert_after :: "dll \<Rightarrow> link \<Rightarrow> link \<Rightarrow> dll" where
  "dll_insert_after q h x =
     (let n = nxt q h in
      q\<lparr>nxt := (nxt q)(x := n, h := x), prv := (prv q)(n := x, x := h)\<rparr>)"

definition dll_remove :: "dll \<Rightarrow> link \<Rightarrow> dll" where
  "dll_remove q x =
     q\<lparr>nxt := (nxt q)(prv q x := nxt q x), prv := (prv q)(nxt q x := prv q x)\<rparr>"

fun chain :: "dll \<Rightarrow> link list \<Rightarrow> bool" where
  "chain q (x # y # zs) \<longleftrightarrow> nxt q x = y \<and> prv q y = x \<and> chain q (y # zs)"
| "chain q _ \<longleftrightarrow> True"

definition dll_ring :: "dll \<Rightarrow> addr list \<Rightarrow> bool" where
  "dll_ring q ps \<longleftrightarrow> distinct ps \<and> chain q (Head # map Link ps @ [Head])"

lemma chain_append: "chain q (xs @ x # ys) \<longleftrightarrow> chain q (xs @ [x]) \<and> chain q (x # ys)"
  by (induction q xs rule: chain.induct) simp_all

lemma chain_cong:
  "(\<And>x. x \<in> set (butlast xs) \<Longrightarrow> nxt q' x = nxt q x) \<Longrightarrow>
   (\<And>x. x \<in> set (tl xs) \<Longrightarrow> prv q' x = prv q x) \<Longrightarrow> chain q' xs = chain q xs"
proof (induction q xs rule: chain.induct)
  case (1 q x y zs)
  have "chain q' (y # zs) = chain q (y # zs)"
    using "1.prems" by (intro "1.IH") auto
  then show ?case using "1.prems" by auto
qed simp_all

lemma dll_ring_init: "dll_ring (dll_init q) []"
  by (simp add: dll_ring_def dll_init_def)

lemma dll_ring_prev:
  assumes "dll_ring q ps"
  shows "prv q Head = (if ps = [] then Head else Link (last ps))"
proof (cases ps rule: rev_cases)
  case (snoc us p)
  then have "chain q ((Head # map Link us) @ Link p # [Head])" using assms by (simp add: dll_ring_def)
  then have "chain q (Link p # [Head])" by (subst (asm) chain_append) blast
  then show ?thesis using snoc by simp
qed (use assms in \<open>simp add: dll_ring_def\<close>)

lemma dll_ring_insert:
  assumes r: "dll_ring q ps" and p: "p \<notin> set ps"
  shows "dll_ring (dll_insert_after q Head (Link p)) (p # ps)"
proof -
  have d: "distinct ps" using r by (simp add: dll_ring_def)
  let ?q = "dll_insert_after q Head (Link p)"
  obtain y zs where yz: "map Link ps @ [Head] = y # zs" by (cases ps) auto
  have y: "nxt q Head = y" "chain q (y # zs)" using r yz by (simp_all add: dll_ring_def)
  have dist: "distinct (map Link ps @ [Head])" using d by (auto simp: distinct_map inj_on_def)
  then have yzs: "y \<notin> set zs" using yz by simp
  have bl: "set (butlast (y # zs)) = Link ` set ps" unfolding yz [symmetric] by simp
  have "Link p \<notin> set (y # zs)" using p by (auto simp flip: yz)
  then have "chain ?q (y # zs) = chain q (y # zs)"
    using yzs y(1) p
    by (intro chain_cong; unfold bl list.sel) (auto simp: dll_insert_after_def Let_def)
  moreover have "Link p \<noteq> y" using \<open>Link p \<notin> set (y # zs)\<close> by auto
  ultimately show ?thesis
    using y p d by (simp add: dll_ring_def yz) (simp add: dll_insert_after_def Let_def)
qed

lemma dll_ring_remove:
  assumes r: "dll_ring q ps" and p: "p \<in> set ps"
  shows "dll_ring (dll_remove q (Link p)) (remove1 p ps)"
proof -
  have d: "distinct ps" using r by (simp add: dll_ring_def)
  obtain us vs where ps: "ps = us @ p # vs" by (meson p split_list)
  then have nu: "p \<notin> set us" "p \<notin> set vs" using d by auto
  then have rem: "remove1 p ps = us @ vs" using ps by (simp add: remove1_append)
  obtain as a where as: "Head # map Link us = as @ [a]" by (metis list.discI rev_exhaust)
  obtain b bs where bs: "map Link vs @ [Head] = b # bs" by (cases vs) auto
  let ?q = "dll_remove q (Link p)"
  have "Head # map Link ps @ [Head] = (Head # map Link us) @ Link p # (map Link vs @ [Head])"
    by (simp add: ps)
  also have "\<dots> = as @ a # Link p # b # bs" unfolding as bs by simp
  finally have c: "chain q (as @ a # Link p # b # bs)" using r unfolding dll_ring_def by metis
  then have 1: "chain q (as @ [a])" "chain q (a # Link p # b # bs)"
    using chain_append [of q as a "Link p # b # bs"] by blast+
  then have ab: "nxt q (Link p) = b" "prv q (Link p) = a" "chain q (b # bs)" by auto
  have da: "distinct (as @ [a])" using d ps unfolding as [symmetric] by (auto simp: distinct_map inj_on_def)
  have db: "distinct (b # bs)" using d ps unfolding bs [symmetric] by (auto simp: distinct_map inj_on_def)
  have sa: "set (as @ [a]) = insert Head (Link ` set us)" by (simp flip: as)
  have sb: "set (b # bs) = insert Head (Link ` set vs)" by (simp flip: bs)
  have tas: "set (tl (as @ [a])) = Link ` set us" by (simp flip: as)
  have bbs: "set (butlast (b # bs)) = Link ` set vs" by (simp flip: bs)
  have dis: "set us \<inter> set vs = {}" using d ps by auto
  have "b \<notin> set (tl (as @ [a]))" using tas sb dis by auto
  then have "chain ?q (as @ [a]) = chain q (as @ [a])"
    using da ab by (intro chain_cong) (auto simp: dll_remove_def)
  moreover have "a \<notin> set (butlast (b # bs))" using bbs sa dis by auto
  then have "chain ?q (b # bs) = chain q (b # bs)"
    using db ab by (intro chain_cong) (auto simp: dll_remove_def)
  moreover have "nxt ?q a = b" "prv ?q b = a" using ab by (simp_all add: dll_remove_def)
  ultimately have "chain ?q (as @ a # b # bs)"
    using 1 ab(3) by (subst chain_append) simp
  moreover have "Head # map Link (us @ vs) @ [Head] = as @ a # b # bs"
  proof -
    have "Head # map Link (us @ vs) @ [Head] = (Head # map Link us) @ (map Link vs @ [Head])" by simp
    then show ?thesis unfolding as bs by simp
  qed
  moreover have "distinct (us @ vs)" using d ps by simp
  ultimately show ?thesis by (simp add: dll_ring_def rem)
qed


section \<open>The slab and the map\<close>

text \<open>
  A cell holds a string, a map node with its entry, or a key of a vector's capacity. A failed
  insertion gives back the cells of the key and the entry it was handed.
\<close>

type_synonym cells = nat

definition take_cells :: "nat \<Rightarrow> cells \<Rightarrow> bool \<times> cells" where
  "take_cells n a = (if n \<le> a then (True, a - n) else (False, a))"

definition ref_reserve :: "key_vec \<Rightarrow> cells \<Rightarrow> key_vec option \<times> cells" where
  "ref_reserve v a =
     (if length (items v) < capacity v then (Some v, a)
      else if length (items v) < capacity v + a
      then (Some (v\<lparr>capacity := Suc (length (items v))\<rparr>), a - (Suc (length (items v)) - capacity v))
      else (None, a))"

type_synonym ref_map = "(bytes \<times> addr) list \<times> addr"

definition ref_map_ok :: "ref_map \<Rightarrow> bool" where
  "ref_map_ok m \<longleftrightarrow> distinct (map fst (fst m)) \<and> (\<forall>e\<in>set (fst m). snd e < snd m)"

definition ref_get :: "ref_map \<Rightarrow> bytes \<Rightarrow> addr option" where
  "ref_get m k = map_of (fst m) k"

definition ref_try_insert :: "ref_map \<Rightarrow> bytes \<Rightarrow> cells \<Rightarrow> (addr \<times> ref_map) option \<times> cells" where
  "ref_try_insert m k a =
     (if 0 < a then (Some (snd m, ((k, snd m) # fst m, Suc (snd m))), a - 1) else (None, a + 3))"

definition ref_remove :: "ref_map \<Rightarrow> bytes \<Rightarrow> cells \<Rightarrow> (addr \<times> ref_map \<times> cells) option" where
  "ref_remove m k a =
     (case map_of (fst m) k of
        None \<Rightarrow> None
      | Some p \<Rightarrow> Some (p, (filter (\<lambda>e. fst e \<noteq> k) (fst m), snd m), a + 2))"

definition ref_ngx :: "(cells, ref_map, dll) ngx" where
  "ref_ngx =
     \<lparr>string_try_from = (\<lambda>s. take_cells 1),
      string_drop = (\<lambda>s a. a + 1),
      vec_try_reserve = ref_reserve,
      vec_drop = (\<lambda>v a. a + capacity v),
      map_try_new = (\<lambda>a. (Some ([], 0), a)),
      map_get = ref_get,
      map_try_insert = ref_try_insert,
      map_remove = ref_remove,
      map_drop = (\<lambda>m a. a),
      alloc_shared = take_cells 1,
      queue_zeroed = dll_zeroed,
      queue_init = dll_init,
      queue_insert_after = dll_insert_after,
      queue_remove = dll_remove,
      queue_prev = prv\<rparr>"

lemma ref_get_remove:
  "map_of (filter (\<lambda>e. fst e \<noteq> k) xs) = (map_of xs)(k := None)"
  by (induction xs) auto

lemma ref_env: "ngx_env ref_ngx dll_ring ref_map_ok"
proof (unfold_locales, goal_cases)
  case (1 q) then show ?case by (simp add: ref_ngx_def dll_ring_init)
next
  case (2 q ps p) then show ?case by (simp add: ref_ngx_def dll_ring_insert)
next
  case (3 q ps p) then show ?case by (simp add: ref_ngx_def dll_ring_remove)
next
  case (4 q ps) then show ?case by (simp add: ref_ngx_def dll_ring_prev)
next
  case (5 a m a') then show ?case by (auto simp: ref_ngx_def ref_map_ok_def ref_get_def fun_eq_iff)
next
  case (6 m k a p m' a')
  then show ?case
    by (fastforce simp: ref_ngx_def ref_try_insert_def ref_map_ok_def ref_get_def fun_eq_iff ran_def
        map_of_eq_None_iff less_Suc_eq dest!: map_of_SomeD split: if_splits)
next
  case (7 m k a) then show ?case by (simp add: ref_ngx_def ref_remove_def ref_get_def)
next
  case (8 m k p a)
  then show ?case
    by (auto simp: ref_ngx_def ref_remove_def ref_map_ok_def ref_get_def fun_eq_iff ref_get_remove
        distinct_map_filter)
next
  case (9 v a v' a') then show ?case by (auto simp: ref_ngx_def ref_reserve_def split: if_splits)
next
  case (10 v a) then show ?case by (simp add: ref_ngx_def ref_reserve_def)
qed

interpretation ref: ngx_env ref_ngx dll_ring ref_map_ok
  by (rule ref_env)

text \<open>A zone whose pool has \<open>n\<close> free cells, and the index \<open>shared\<close> places in it.\<close>

definition ref_zone :: "nat \<Rightarrow> (cells, ref_map, dll) zone" where
  "ref_zone n = snd (shared ref_ngx \<lparr>z_slab = Some (Suc n), z_data = None, z_log_nomem = True\<rparr>)"

lemma ref_zone_rel: "zone_rel ref_ngx dll_ring ref_map_ok (ref_zone n) []"
proof -
  let ?z = "\<lparr>z_slab = Some (Suc n), z_data = None, z_log_nomem = True\<rparr>"
  obtain ti where "shared ref_ngx ?z = (Inr ti, ref_zone n)"
    by (simp add: ref_zone_def shared_def ref_ngx_def take_cells_def Let_def)
  then show ?thesis using ref.shared_fresh [of ?z ti] by simp
qed

lemmas ref_eval = ref_ngx_def ref_zone_def shared_def take_cells_def ref_reserve_def ref_get_def
  ref_try_insert_def ref_remove_def dll_zeroed_def dll_init_def dll_insert_after_def
  dll_remove_def new_vec_def

lemmas index_eval = zone_insert_def zone_take_def locked_def index_insert_def index_take_def
  append_key_def create_def touch_def evict_def EVICT_ATTEMPTS_def MAX_TAG_LEN_def
  MAX_KEYS_PER_TAG_def Let_def

end
