(* ===== verification/Index_Room.thy ===== *)
theory Index_Room
  imports Ngx_Reference
begin

text \<open>
  The tag index while its zone has room: no allocation fails. Then an insert never evicts and
  always records, and recording a header is a fold of \<open>lru_record\<close> over its tags, the ones of
  an unacceptable length left out. \<open>ngx_room\<close> adds the three allocation laws to \<open>ngx_env\<close>,
  \<open>tag_store_room\<close> is what a client sees of them.
\<close>

locale ngx_room = ngx_env N ring map_ok
  for N :: "('a, 'm, 'q) ngx" and ring map_ok +
  assumes string_room: "fst (string_try_from N s a)"
    and vec_room: "fst (vec_try_reserve N v a) \<noteq> None"
    and map_room: "fst (map_try_insert N m k a) \<noteq> None"
begin

lemma create_room: "\<exists>ti' a'. create N tag key (ti, a) = (Inr (), ti', a')"
proof -
  obtain a1 where 1: "string_try_from N tag a = (True, a1)"
    using string_room [of tag a] by (cases "string_try_from N tag a") auto
  obtain a2 where 2: "string_try_from N tag a1 = (True, a2)"
    using string_room [of tag a1] by (cases "string_try_from N tag a1") auto
  obtain v a3 where 3: "vec_try_reserve N new_vec a2 = (Some v, a3)"
    using vec_room [of new_vec a2] by (cases "vec_try_reserve N new_vec a2") auto
  obtain p m a4 where 4: "map_try_insert N (ti_map ti) tag a3 = (Some (p, m), a4)"
    using map_room [of "ti_map ti" tag a3] by (cases "map_try_insert N (ti_map ti) tag a3") auto
  show ?thesis by (simp add: create_def Let_def 1 2 3 4)
qed

lemma append_key_room:
  assumes "map_get N (ti_map ti) tag \<noteq> None" "append_key N tag key (ti, a) = Some (r, ti', a')"
  shows "r = Inr ()"
proof -
  have "fst (vec_try_reserve N v a) = Some (the (fst (vec_try_reserve N v a)))" for v
    using vec_room [of v a] by simp
  then have "\<exists>w. vec_try_reserve N v a = (Some w, snd (vec_try_reserve N v a))" for v
    by (metis prod.collapse)
  moreover obtain p where p: "map_get N (ti_map ti) tag = Some p" using assms(1) by blast
  ultimately show ?thesis
    using assms(2) by (auto simp: append_key_def Let_def split: option.splits if_splits prod.splits)
      (metis option.distinct(1) prod.inject)+
qed

lemma insert_room:
  assumes ok: "index_ok N ring map_ok ti ps" and tag: "tag \<noteq> []" "length tag \<le> MAX_TAG_LEN"
  shows "\<exists>ti' a' ps'. index_insert N tag key (ti, a) = Some (Inr (), ti', a')
    \<and> index_ok N ring map_ok ti' ps'
    \<and> index_view ti' ps' = lru_record tag key (lru_touch tag (index_view ti ps))"
proof -
  define ti1 where "ti1 = (case map_get N (ti_map ti) tag of Some p \<Rightarrow> touch N (Link p) ti | None \<Rightarrow> ti)"
  obtain qs where ok1: "index_ok N ring map_ok ti1 qs"
    and v1: "index_view ti1 qs = lru_touch tag (index_view ti ps)"
  proof (cases "map_get N (ti_map ti) tag")
    case None
    then have "lru_touch tag (index_view ti ps) = index_view ti ps"
      using index_ok_lookup_None [OF ok] by (simp add: lru_touch_id)
    with None ok show thesis by (intro that [of ps]) (simp_all add: ti1_def)
  next
    case (Some p)
    then show thesis
      using touch_ok [OF ok Some]
      by (intro that [of "p # remove1 p ps"]) (simp_all add: ti1_def del: index_view_simps)
  qed
  obtain r ti' a' where run: "(if map_get N (ti_map ti1) tag \<noteq> None then append_key N tag key (ti1, a)
      else Some (create N tag key (ti1, a))) = Some (r, ti', a')"
    and res: "case r of
       Inl e \<Rightarrow> ti' = ti1
     | Inr u \<Rightarrow> (\<exists>ps'. index_ok N ring map_ok ti' ps'
           \<and> index_view ti' ps' = lru_record tag key (index_view ti1 qs))
         \<and> ti_evicted ti' = ti_evicted ti1
         \<and> ti_dropped ti' = ti_dropped ti1 + of_bool (lru_sheds tag key (index_view ti1 qs))"
    by (rule attempt_ok [OF ok1 tag])
  have r: "r = Inr ()"
  proof (cases "map_get N (ti_map ti1) tag")
    case None
    then show ?thesis using run create_room [of tag key ti1 a] by auto
  next
    case (Some p)
    then show ?thesis using run append_key_room [of ti1 tag key a r ti' a'] by simp
  qed
  have "index_insert N tag key (ti, a) = insert_attempts N (Suc 63) tag key (ti1, a)"
    using tag by (simp add: index_insert_def ti1_def EVICT_ATTEMPTS_def numeral_eq_Suc)
  also have "\<dots> = Some (Inr (), ti', a')"
    using run r by (subst insert_attempts.simps(2)) simp
  finally show ?thesis using res r v1 by auto
qed

lemma zone_insert_room:
  assumes "zone_rel N ring map_ok z L" "tag \<noteq> []" "length tag \<le> MAX_TAG_LEN"
  shows "\<exists>z'. zone_insert N tag key z = Some (Inr (), z')
    \<and> zone_rel N ring map_ok z' (lru_record tag key (lru_touch tag L))"
proof -
  obtain ti ps a where z: "z_data z = Some ti" "z_slab z = Some a"
    and ok: "index_ok N ring map_ok ti ps" and L: "L = index_view ti ps"
    using assms(1) by (auto simp: zone_rel_def)
  obtain ti' a' ps' where "index_insert N tag key (ti, a) = Some (Inr (), ti', a')"
    "index_ok N ring map_ok ti' ps'"
    "index_view ti' ps' = lru_record tag key (lru_touch tag (index_view ti ps))"
    using insert_room [OF ok assms(2,3), of key a] by blast
  then show ?thesis using z L by (force simp: zone_insert_def locked_def zone_rel_def)
qed

end

section \<open>What a client sees\<close>

definition tag_accepted :: "bytes \<Rightarrow> bool" where
  "tag_accepted t \<longleftrightarrow> t \<noteq> [] \<and> length t \<le> MAX_TAG_LEN"

definition lru_record_all :: "cache_key \<Rightarrow> bytes list \<Rightarrow> lru \<Rightarrow> lru" where
  "lru_record_all key ts L =
     foldl (\<lambda>L t. lru_record t key (lru_touch t L)) L (filter tag_accepted ts)"

lemma lru_record_all_simps [simp]:
  "lru_record_all key [] L = L"
  "lru_record_all key (t # ts) L =
     lru_record_all key ts (if tag_accepted t then lru_record t key (lru_touch t L) else L)"
  by (simp_all add: lru_record_all_def)

lemma lru_ok_record_all: "lru_ok L \<Longrightarrow> lru_ok (lru_record_all key ts L)"
  by (induction ts arbitrary: L) (simp_all add: lru_ok_record lru_ok_touch tag_accepted_def)

lemma map_of_record_touch:
  "lru_ok L \<Longrightarrow> map_of (lru_record t k (lru_touch t L)) =
     (map_of L)(t \<mapsto> (case map_of L t of None \<Rightarrow> [k] | Some ks \<Rightarrow> add_key k ks))"
  by (simp add: map_of_record lru_ok_touch map_of_touch)

lemma lru_record_all_keeps:
  "lru_ok L \<Longrightarrow> map_of L t = Some ks \<Longrightarrow> key \<in> set ks \<Longrightarrow>
   map_of (lru_record_all key ts L) t = Some ks"
proof (induction ts arbitrary: L)
  case (Cons t0 ts)
  show ?case
  proof (cases "tag_accepted t0")
    case True
    let ?L = "lru_record t0 key (lru_touch t0 L)"
    have "lru_ok ?L" using Cons.prems(1) True by (simp add: lru_ok_record lru_ok_touch tag_accepted_def)
    moreover have "map_of ?L t = Some ks"
      using Cons.prems by (auto simp: map_of_record_touch add_key_def)
    ultimately show ?thesis using Cons.IH Cons.prems(3) True by simp
  qed (use Cons in simp)
qed simp

text \<open>Every accepted tag of the list has the key afterwards.\<close>

lemma lru_record_all_mem:
  "lru_ok L \<Longrightarrow> t \<in> set ts \<Longrightarrow> tag_accepted t \<Longrightarrow>
   \<exists>ks. map_of (lru_record_all key ts L) t = Some ks \<and> key \<in> set ks"
proof (induction ts arbitrary: L)
  case (Cons t0 ts)
  let ?L = "if tag_accepted t0 then lru_record t0 key (lru_touch t0 L) else L"
  have ok: "lru_ok ?L" using Cons.prems(1) by (simp add: lru_ok_record lru_ok_touch tag_accepted_def)
  show ?case
  proof (cases "t \<in> set ts")
    case True
    then show ?thesis using Cons.IH [OF ok] Cons.prems(3) by simp
  next
    case False
    then have t: "t0 = t" using Cons.prems(2) by simp
    obtain ks where ks: "map_of ?L t = Some ks" "key \<in> set ks"
      using Cons.prems(1,3) t add_key_mem
      by (cases "map_of L t") (auto simp: map_of_record_touch)
    then show ?thesis using lru_record_all_keeps [OF ok ks, of ts] by auto
  qed
qed simp

text \<open>A tag that is not in the list keeps its keys.\<close>

lemma lru_record_all_other:
  "lru_ok L \<Longrightarrow> t \<notin> set ts \<Longrightarrow> map_of (lru_record_all key ts L) t = map_of L t"
proof (induction ts arbitrary: L)
  case (Cons t0 ts)
  let ?L = "if tag_accepted t0 then lru_record t0 key (lru_touch t0 L) else L"
  have "lru_ok ?L" using Cons.prems(1) by (simp add: lru_ok_record lru_ok_touch tag_accepted_def)
  then have "map_of (lru_record_all key ts ?L) t = map_of ?L t" using Cons by simp
  then show ?case using Cons.prems by (simp add: map_of_record_touch)
qed simp

locale tag_store_room = tag_store rel ins tak
  for rel :: "'z \<Rightarrow> lru \<Rightarrow> bool" and ins tak +
  assumes ins_room:
      "rel z L \<Longrightarrow> tag \<noteq> [] \<Longrightarrow> length tag \<le> MAX_TAG_LEN \<Longrightarrow>
       \<exists>z'. ins tag key z = Some (Inr (), z') \<and> rel z' (lru_record tag key (lru_touch tag L))"
begin

lemma insert_each_room:
  "rel z L \<Longrightarrow> \<exists>z'. insert_each ins key ts z = Some (list_ex tag_accepted ts, z')
     \<and> rel z' (lru_record_all key ts L)"
proof (induction ts arbitrary: z L)
  case (Cons t ts)
  show ?case
  proof (cases "tag_accepted t")
    case True
    then obtain z1 where 1: "ins t key z = Some (Inr (), z1)"
      "rel z1 (lru_record t key (lru_touch t L))"
      using ins_room [OF Cons.prems, of t key] by (auto simp: tag_accepted_def)
    then show ?thesis using Cons.IH [OF 1(2)] True by auto
  next
    case False
    then have "ins t key z = Some (Inl AllocError, z)"
      by (intro ins_bad) (auto simp: tag_accepted_def)
    then show ?thesis using Cons.IH [OF Cons.prems] False by auto
  qed
qed simp

end

sublocale ngx_room \<subseteq> room: tag_store_room "zone_rel N ring map_ok" "zone_insert N" "zone_take N"
  by unfold_locales (rule zone_insert_room)

context ngx_room
begin

lemma zone_insert_each_room:
  "zone_rel N ring map_ok z L \<Longrightarrow>
   \<exists>z'. insert_each (zone_insert N) key ts z = Some (list_ex tag_accepted ts, z')
     \<and> zone_rel N ring map_ok z' (lru_record_all key ts L)"
  by (rule room.insert_each_room)

end

section \<open>A provider with room\<close>

definition ref_room :: "(cells, ref_map, dll) ngx" where
  "ref_room = ref_ngx
     \<lparr>string_try_from := (\<lambda>s a. (True, a)),
      vec_try_reserve := (\<lambda>v a. (Some (if length (items v) < capacity v then v
                                     else v\<lparr>capacity := Suc (length (items v))\<rparr>), a)),
      map_try_insert := (\<lambda>m k a. (Some (snd m, ((k, snd m) # fst m, Suc (snd m))), a))\<rparr>"

lemma ref_room_env: "ngx_room ref_room dll_ring ref_map_ok"
proof (unfold_locales, goal_cases)
  case (6 m k a p m' a')
  then show ?case
    by (fastforce simp: ref_room_def ref_ngx_def ref_map_ok_def ref_get_def fun_eq_iff ran_def
        map_of_eq_None_iff less_Suc_eq dest!: map_of_SomeD split: if_splits)
qed (use ref.ring_init ref.ring_insert_after ref.ring_remove ref.ring_prev ref.map_new
       ref.map_remove_absent ref.map_remove_present in
     \<open>auto simp: ref_room_def ref_ngx_def split: if_splits\<close>)

interpretation room: ngx_room ref_room dll_ring ref_map_ok
  by (rule ref_room_env)

end
