(* ===== verification/Cache_Tree.thy ===== *)
theory Cache_Tree
  imports Xkey_Key "HOL-Library.Tree"
begin

text \<open>
  NGINX's cache rbtree as \<open>invalidate\<close> of \<open>src/purge.rs\<close> reads it. The nodes live at addresses,
  the walk follows their child pointers until it meets the sentinel. The walk is a
  \<open>partial_function\<close>: None is a node pointer that leads nowhere or a walk that never ends. The
  lemmas prove that on a well-formed tree (\<open>tree_at\<close>, ordered by \<open>nkey_less\<close>) it returns, finds
  exactly the live node with the whole key, and changes that node and the size total only.
  The mutex around the walk makes the call one step.
\<close>

type_synonym addr = nat

text \<open>
  A \<open>ngx_http_file_cache_node_t\<close>: the tree node is its first member, \<open>f_key\<close> the rest of the
  key, \<open>f_fs_size\<close> the file's size in blocks.
\<close>

record cache_node =
  n_key :: usize
  n_left :: addr
  n_right :: addr
  f_key :: bytes
  f_exists :: bool
  f_fs_size :: u64

record cache_tree =
  c_root :: addr
  c_sentinel :: addr
  c_nodes :: "addr \<Rightarrow> cache_node option"
  c_size :: u64

partial_function (option) invalidate_loop ::
  "usize \<Rightarrow> bytes \<Rightarrow> cache_tree \<Rightarrow> addr \<Rightarrow> (bool \<times> cache_tree) option" where
  "invalidate_loop key rest c node =
     (if node = c_sentinel c then Some (False, c)
      else
        (case c_nodes c node of
           None \<Rightarrow> None
         | Some n \<Rightarrow>
             if key < n_key n then invalidate_loop key rest c (n_left n)
             else if n_key n < key then invalidate_loop key rest c (n_right n)
             else
               (case slice_cmp rest (take (length rest) (f_key n)) of
                  Less \<Rightarrow> invalidate_loop key rest c (n_left n)
                | Greater \<Rightarrow> invalidate_loop key rest c (n_right n)
                | Equal \<Rightarrow>
                    if f_exists n
                    then Some (True,
                           c\<lparr>c_size := c_size c - f_fs_size n,
                             c_nodes := (c_nodes c)(node \<mapsto> n\<lparr>f_fs_size := 0, f_exists := False\<rparr>)\<rparr>)
                    else Some (False, c))))"

definition invalidate :: "endian \<Rightarrow> cache_tree \<Rightarrow> cache_key \<Rightarrow> (bool \<times> cache_tree) option" where
  "invalidate e c key = invalidate_loop (node_key e key) (node_key_rest key) c (c_root c)"

section \<open>Well-formed trees\<close>

definition node_nkey :: "cache_tree \<Rightarrow> addr \<Rightarrow> nkey" where
  "node_nkey c p = (case c_nodes c p of Some n \<Rightarrow> (n_key n, f_key n) | None \<Rightarrow> (0, []))"

definition node_live :: "cache_tree \<Rightarrow> addr \<Rightarrow> bool" where
  "node_live c p = (case c_nodes c p of Some n \<Rightarrow> f_exists n | None \<Rightarrow> False)"

definition node_size :: "cache_tree \<Rightarrow> addr \<Rightarrow> u64" where
  "node_size c p = (case c_nodes c p of Some n \<Rightarrow> if f_exists n then f_fs_size n else 0 | None \<Rightarrow> 0)"

fun tree_at :: "cache_tree \<Rightarrow> addr \<Rightarrow> addr tree \<Rightarrow> bool" where
  "tree_at c p Leaf \<longleftrightarrow> p = c_sentinel c"
| "tree_at c p (Node l q r) \<longleftrightarrow> p = q \<and> p \<noteq> c_sentinel c
     \<and> (case c_nodes c q of
          None \<Rightarrow> False
        | Some n \<Rightarrow> length (f_key n) = CACHE_KEY_LEN - USIZE_BYTES
            \<and> tree_at c (n_left n) l \<and> tree_at c (n_right n) r)"

definition cache_ok :: "cache_tree \<Rightarrow> addr tree \<Rightarrow> bool" where
  "cache_ok c t \<longleftrightarrow> tree_at c (c_root c) t
     \<and> sorted_wrt nkey_less (map (node_nkey c) (inorder t))
     \<and> c_size c = sum_list (map (node_size c) (inorder t))"

text \<open>The keys of the entries that exist, which is what a purge can invalidate.\<close>

definition live_keys :: "cache_tree \<Rightarrow> addr tree \<Rightarrow> nkey set" where
  "live_keys c t = node_nkey c ` {p \<in> set (inorder t). node_live c p}"

definition clear_node :: "cache_tree \<Rightarrow> addr \<Rightarrow> cache_tree" where
  "clear_node c p =
     (case c_nodes c p of
        None \<Rightarrow> c
      | Some n \<Rightarrow> c\<lparr>c_size := c_size c - f_fs_size n,
                    c_nodes := (c_nodes c)(p \<mapsto> n\<lparr>f_fs_size := 0, f_exists := False\<rparr>)\<rparr>)"

section \<open>The walk\<close>

text \<open>
  What the walk decides at a node is the order of the whole keys, since a node's rest has the
  length of the sought one.
\<close>

lemma invalidate_loop_node:
  assumes "node \<noteq> c_sentinel c" "c_nodes c node = Some n" "length (f_key n) = length rest"
  shows "invalidate_loop key rest c node =
    (if nkey_less (key, rest) (n_key n, f_key n) then invalidate_loop key rest c (n_left n)
     else if nkey_less (n_key n, f_key n) (key, rest) then invalidate_loop key rest c (n_right n)
     else Some (if f_exists n then (True, clear_node c node) else (False, c)))"
proof -
  have t: "take (length rest) (f_key n) = f_key n" using assms(3) by simp
  have less: "slice_cmp (f_key n) rest = Less \<longleftrightarrow> slice_cmp rest (f_key n) = Greater"
    by (rule slice_cmp_Less)
  show ?thesis
    by (subst invalidate_loop.simps)
      (use assms(1,2) in \<open>auto simp: t less nkey_less_def clear_node_def split: ordering.split\<close>)
qed

definition find_node :: "cache_tree \<Rightarrow> nkey \<Rightarrow> addr tree \<Rightarrow> addr option" where
  "find_node c k t = List.find (\<lambda>p. node_nkey c p = k) (inorder t)"

definition walk_result :: "cache_tree \<Rightarrow> addr option \<Rightarrow> bool \<times> cache_tree" where
  "walk_result c r =
     (case r of
        Some p \<Rightarrow> if node_live c p then (True, clear_node c p) else (False, c)
      | None \<Rightarrow> (False, c))"

lemma find_append: "List.find P (xs @ ys) =
    (case List.find P xs of None \<Rightarrow> List.find P ys | Some x \<Rightarrow> Some x)"
  by (induction xs) auto

lemma find_None: "List.find P xs = None \<longleftrightarrow> (\<forall>x\<in>set xs. \<not> P x)"
  by (auto simp: find_None_iff)

lemma invalidate_loop_tree:
  "tree_at c p t \<Longrightarrow> sorted_wrt nkey_less (map (node_nkey c) (inorder t)) \<Longrightarrow>
   length rest = CACHE_KEY_LEN - USIZE_BYTES \<Longrightarrow>
   invalidate_loop key rest c p = Some (walk_result c (find_node c (key, rest) t))"
proof (induction t arbitrary: p)
  case Leaf
  then show ?case
    by (simp add: invalidate_loop.simps find_node_def walk_result_def)
next
  case (Node l q r)
  obtain n where n: "p = q" "p \<noteq> c_sentinel c" "c_nodes c p = Some n"
    "length (f_key n) = length rest" "tree_at c (n_left n) l" "tree_at c (n_right n) r"
    using Node.prems by (auto split: option.splits)
  let ?k = "(key, rest)" and ?q = "(n_key n, f_key n)"
  have q: "node_nkey c q = ?q" using n by (simp add: node_nkey_def)
  have lo: "nkey_less (node_nkey c x) ?q" if "x \<in> set (inorder l)" for x
    using Node.prems(2) that q by (auto simp: sorted_wrt_append)
  have hi: "nkey_less ?q (node_nkey c x)" if "x \<in> set (inorder r)" for x
    using Node.prems(2) that q by (auto simp: sorted_wrt_append)
  have sl: "sorted_wrt nkey_less (map (node_nkey c) (inorder l))"
    and sr: "sorted_wrt nkey_less (map (node_nkey c) (inorder r))"
    using Node.prems(2) by (auto simp: sorted_wrt_append)
  have nl: "find_node c ?k l = None" if "\<not> nkey_less ?k ?q"
    using that lo unfolding find_node_def find_None by (metis)
  have nr: "find_node c ?k r = None" if "\<not> nkey_less ?q ?k"
    using that hi unfolding find_node_def find_None by (metis)
  have split: "find_node c ?k (Node l q r) =
      (case find_node c ?k l of
         None \<Rightarrow> if ?q = ?k then Some q else find_node c ?k r | Some x \<Rightarrow> Some x)"
    by (simp add: find_node_def find_append q split: option.split)
  note step = invalidate_loop_node [OF n(2,3,4), of key]
  consider (less) "nkey_less ?k ?q" | (eq) "?k = ?q" | (gt) "nkey_less ?q ?k"
    using nkey_less_linear by blast
  then show ?case
  proof cases
    case less
    then have "\<not> nkey_less ?q ?k" "?q \<noteq> ?k"
      using nkey_less_trans nkey_less_irrefl by metis+
    then have "find_node c ?k (Node l q r) = find_node c ?k l"
      using nr split by (auto split: option.splits)
    then show ?thesis
      using step less Node.IH(1) [OF n(5) sl Node.prems(3)] by simp
  next
    case eq
    then have "find_node c ?k (Node l q r) = Some q"
      using nl split nkey_less_irrefl by (metis option.simps(4))
    then show ?thesis
      using step eq n by (simp add: walk_result_def node_live_def)
  next
    case gt
    then have "\<not> nkey_less ?k ?q" "?q \<noteq> ?k"
      using nkey_less_trans nkey_less_irrefl by metis+
    then have "find_node c ?k (Node l q r) = find_node c ?k r"
      using nl split by auto
    then show ?thesis
      using step gt \<open>\<not> nkey_less ?k ?q\<close> Node.IH(2) [OF n(6) sr Node.prems(3)] by simp
  qed
qed


section \<open>Effect of an invalidation\<close>

lemma clear_node_simps [simp]:
  "c_root (clear_node c p) = c_root c"
  "c_sentinel (clear_node c p) = c_sentinel c"
  "node_nkey (clear_node c p) q = node_nkey c q"
  by (auto simp: clear_node_def node_nkey_def split: option.splits)

lemma clear_node_live: "node_live (clear_node c p) q \<longleftrightarrow> node_live c q \<and> q \<noteq> p"
  by (auto simp: clear_node_def node_live_def split: option.splits)

lemma clear_node_size: "node_size (clear_node c p) q = (if q = p then 0 else node_size c q)"
  by (auto simp: clear_node_def node_size_def split: option.splits)

lemma clear_node_other: "q \<noteq> p \<Longrightarrow> c_nodes (clear_node c p) q = c_nodes c q"
  by (simp add: clear_node_def split: option.split)

lemma clear_node_nodes:
  "c_nodes c q = Some n \<Longrightarrow>
   c_nodes (clear_node c p) q = Some (if q = p then n\<lparr>f_fs_size := 0, f_exists := False\<rparr> else n)"
  by (auto simp: clear_node_def split: option.split)

lemma tree_at_clear: "tree_at (clear_node c p) x t = tree_at c x t"
proof (induction t arbitrary: x)
  case (Node l q r)
  show ?case
  proof (cases "c_nodes c q")
    case None
    then have "c_nodes (clear_node c p) q = None" by (auto simp: clear_node_def split: option.split)
    with None show ?thesis by simp
  next
    case (Some n)
    then show ?thesis using Node clear_node_nodes [OF Some, of p] by simp
  qed
qed simp

lemma sorted_nkey_distinct: "sorted_wrt nkey_less (map f ps) \<Longrightarrow> distinct ps \<and> inj_on f (set ps)"
proof -
  have "sorted_wrt nkey_less ks \<Longrightarrow> distinct ks" for ks
  proof (induction ks)
    case (Cons k ks)
    then have "k \<notin> set ks" using nkey_less_irrefl [of k] by fastforce
    with Cons show ?case by simp
  qed simp
  then show "sorted_wrt nkey_less (map f ps) \<Longrightarrow> distinct ps \<and> inj_on f (set ps)"
    using distinct_map by blast
qed

lemma find_node_Some:
  assumes "find_node c k t = Some p"
  shows "p \<in> set (inorder t)" and "node_nkey c p = k"
proof -
  obtain i where "i < length (inorder t)" "node_nkey c (inorder t ! i) = k" "p = inorder t ! i"
    using assms by (auto simp: find_node_def find_Some_iff)
  then show "p \<in> set (inorder t)" "node_nkey c p = k" using nth_mem by blast+
qed

lemma sum_list_zero_at:
  "distinct ps \<Longrightarrow> p \<in> set ps \<Longrightarrow>
   (\<Sum>q\<leftarrow>ps. if q = p then 0 else f q) = (\<Sum>q\<leftarrow>ps. f q) - (f p :: u64)"
proof (induction ps)
  case (Cons a ps)
  have "(\<Sum>q\<leftarrow>ps. if q = a then 0 else f q) = (\<Sum>q\<leftarrow>ps. f q)" if "a \<notin> set ps"
    using that by (intro arg_cong [where f = sum_list] map_cong) auto
  with Cons show ?case by (cases "a = p") (auto simp: algebra_simps)
qed simp

lemma find_node_iff:
  assumes "cache_ok c t"
  shows "find_node c k t = Some p \<longleftrightarrow> p \<in> set (inorder t) \<and> node_nkey c p = k"
proof
  assume p: "p \<in> set (inorder t) \<and> node_nkey c p = k"
  then obtain q where q: "find_node c k t = Some q"
    by (cases "find_node c k t") (auto simp: find_node_def find_None simp del: set_inorder)
  have "inj_on (node_nkey c) (set (inorder t))"
    using assms sorted_nkey_distinct unfolding cache_ok_def by blast
  then show "find_node c k t = Some p"
    using p q find_node_Some [OF q] by (metis inj_onD)
qed (use find_node_Some in blast)

lemma live_keys_find:
  assumes "cache_ok c t"
  shows "k \<in> live_keys c t \<longleftrightarrow> (\<exists>p. find_node c k t = Some p \<and> node_live c p)"
  unfolding find_node_iff [OF assms] live_keys_def by blast

lemma live_keys_clear:
  assumes ok: "cache_ok c t" and p: "find_node c k t = Some p"
  shows "live_keys (clear_node c p) t = live_keys c t - {k}"
proof -
  have "node_nkey c q = k \<longleftrightarrow> q = p" if "q \<in> set (inorder t)" for q
    using that p find_node_iff [OF ok] by (metis option.inject)
  then show ?thesis unfolding live_keys_def clear_node_live clear_node_simps by blast
qed

lemma walk_result_ok:
  assumes ok: "cache_ok c t"
  shows "fst (walk_result c (find_node c k t)) \<longleftrightarrow> k \<in> live_keys c t"
    and "cache_ok (snd (walk_result c (find_node c k t))) t"
    and "live_keys (snd (walk_result c (find_node c k t))) t = live_keys c t - {k}"
proof -
  let ?ps = "inorder t"
  have inj: "distinct ?ps" using ok sorted_nkey_distinct unfolding cache_ok_def by blast
  show "fst (walk_result c (find_node c k t)) \<longleftrightarrow> k \<in> live_keys c t"
    by (simp add: live_keys_find [OF ok] walk_result_def split: option.split)
  show "live_keys (snd (walk_result c (find_node c k t))) t = live_keys c t - {k}"
    using live_keys_find [OF ok, of k] live_keys_clear [OF ok]
    by (auto simp: walk_result_def split: option.split)
  have "cache_ok (clear_node c p) t" if "p \<in> set ?ps" "node_live c p" for p
  proof -
    have "c_size (clear_node c p) = c_size c - node_size c p"
      using that by (auto simp: clear_node_def node_live_def node_size_def split: option.splits)
    moreover have "node_nkey (clear_node c p) = node_nkey c"
      "node_size (clear_node c p) = (\<lambda>q. if q = p then 0 else node_size c q)"
      by (simp_all add: fun_eq_iff clear_node_size)
    ultimately show ?thesis
      using ok sum_list_zero_at [OF inj that(1), of "node_size c"]
      by (simp add: cache_ok_def tree_at_clear)
  qed
  then show "cache_ok (snd (walk_result c (find_node c k t))) t"
    using ok find_node_Some [of c k t] by (simp add: walk_result_def split: option.split)
qed

lemma invalidate_walk:
  assumes "cache_ok c t" "key_ok key"
  shows "invalidate e c key = Some (walk_result c (find_node c (nkey_of e key) t))"
  using assms invalidate_loop_tree [of c "c_root c" t "node_key_rest key" "node_key e key"]
  by (simp add: invalidate_def cache_ok_def nkey_of_def CACHE_KEY_LEN_def USIZE_BYTES_def)

lemma invalidate_ok:
  assumes "cache_ok c t" "key_ok key"
  shows "\<exists>c'. invalidate e c key = Some (nkey_of e key \<in> live_keys c t, c')
    \<and> cache_ok c' t \<and> live_keys c' t = live_keys c t - {nkey_of e key}"
  using walk_result_ok [OF assms(1), of "nkey_of e key"] invalidate_walk [OF assms, of e]
  by (cases "walk_result c (find_node c (nkey_of e key) t)") simp

end
