(* ===== verification/Xkey_Hex.thy ===== *)
theory Xkey_Hex
  imports Xkey_Prelude
begin

text \<open>
  The encoders of \<open>xkey-core/src/lib.rs\<close>: hex (\<open>hex_encode\<close>, \<open>hex_decode\<close>, \<open>nibble\<close>), which
  names and recognises cache files, and decimal (\<open>format_usize\<close>), which writes the counters.
  Each function writes into a caller's buffer, so the model returns the buffer it leaves.
  The lemmas relate the index-driven loops to structural reference functions
  (\<open>hex_of\<close>, \<open>unhex\<close>, \<open>decimal\<close>) and give the round trips.
\<close>

section \<open>Hex encoding\<close>

definition HEX :: bytes where
  "HEX = bytes_of ''0123456789abcdef''"

text \<open>The loop \<open>for (i, byte) in src.iter().enumerate()\<close>.\<close>

fun hex_encode_loop :: "bytes \<Rightarrow> nat \<Rightarrow> bytes \<Rightarrow> bytes" where
  "hex_encode_loop [] i dst = dst"
| "hex_encode_loop (b # bs) i dst =
     hex_encode_loop bs (Suc i)
       (dst[i * 2 := HEX ! unat (drop_bit 4 b), i * 2 + 1 := HEX ! unat (b AND 15)])"

definition hex_encode :: "bytes \<Rightarrow> bytes \<Rightarrow> nat option \<times> bytes" where
  "hex_encode src dst =
     (let needed = length src * 2 in
      if length dst < needed then (None, dst)
      else (Some needed, hex_encode_loop src 0 dst))"

definition hex_pair :: "u8 \<Rightarrow> bytes" where
  "hex_pair b = [HEX ! unat (drop_bit 4 b), HEX ! unat (b AND 15)]"

definition hex_of :: "bytes \<Rightarrow> bytes" where
  "hex_of bs = concat (map hex_pair bs)"

lemma hex_of_simps [simp]:
  "hex_of [] = []"
  "hex_of (b # bs) = hex_pair b @ hex_of bs"
  by (simp_all add: hex_of_def)

lemma length_hex_pair [simp]: "length (hex_pair b) = 2"
  by (simp add: hex_pair_def)

lemma length_hex_of [simp]: "length (hex_of bs) = 2 * length bs"
  by (induction bs) auto

lemma take_update_pair:
  assumes "Suc n < length xs"
  shows "xs[n := a, Suc n := b] = take n xs @ [a, b] @ drop (Suc (Suc n)) xs"
proof -
  have "xs = take n xs @ xs ! n # xs ! Suc n # drop (Suc (Suc n)) xs"
    using assms by (metis Cons_nth_drop_Suc Suc_lessD append_take_drop_id)
  then obtain us x y vs where "xs = us @ x # y # vs" "length us = n"
    using assms by (metis Suc_lessD length_take min.absorb4)
  then show ?thesis by (simp add: list_update_append)
qed

lemma hex_encode_loop_eq:
  "2 * (i + length bs) \<le> length dst \<Longrightarrow>
   hex_encode_loop bs i dst = take (2 * i) dst @ hex_of bs @ drop (2 * (i + length bs)) dst"
proof (induction bs arbitrary: i dst)
  case (Cons b bs)
  let ?d = "dst[i * 2 := HEX ! unat (drop_bit 4 b), i * 2 + 1 := HEX ! unat (b AND 15)]"
  have d: "?d = take (2 * i) dst @ hex_pair b @ drop (Suc (Suc (2 * i))) dst"
    using Cons.prems take_update_pair [of "2 * i" dst]
    by (simp add: hex_pair_def mult.commute)
  have "2 * (Suc i + length bs) \<le> length ?d" using Cons.prems by simp
  then have "hex_encode_loop (b # bs) i dst
      = take (2 * Suc i) ?d @ hex_of bs @ drop (2 * (Suc i + length bs)) ?d"
    by (simp only: hex_encode_loop.simps Cons.IH)
  also have "take (2 * Suc i) ?d = take (2 * i) dst @ hex_pair b"
    unfolding d using Cons.prems by simp
  also have "drop (2 * (Suc i + length bs)) ?d = drop (2 * (i + length (b # bs))) dst"
    unfolding d using Cons.prems by (simp add: algebra_simps)
  finally show ?case by simp
qed simp

lemma hex_encode_eq:
  "hex_encode src dst =
     (if length dst < 2 * length src then (None, dst)
      else (Some (2 * length src), hex_of src @ drop (2 * length src) dst))"
  by (simp add: hex_encode_def hex_encode_loop_eq Let_def mult.commute)

section \<open>Hex decoding\<close>

definition nibble :: "u8 \<Rightarrow> u8 option" where
  "nibble c =
     (if byte CHR ''0'' \<le> c \<and> c \<le> byte CHR ''9'' then Some (c - byte CHR ''0'')
      else if byte CHR ''a'' \<le> c \<and> c \<le> byte CHR ''f'' then Some (c - byte CHR ''a'' + 10)
      else if byte CHR ''A'' \<le> c \<and> c \<le> byte CHR ''F'' then Some (c - byte CHR ''A'' + 10)
      else None)"

text \<open>
  The loop \<open>for (i, out) in dst.iter_mut().enumerate()\<close>; a bad digit returns early and leaves
  what was written so far.
\<close>

function hex_decode_loop :: "bytes \<Rightarrow> bytes \<Rightarrow> nat \<Rightarrow> bool \<times> bytes" where
  "hex_decode_loop src dst i =
     (if i < length dst
      then (case (nibble (src ! (i * 2)), nibble (src ! (i * 2 + 1))) of
              (Some hi, Some lo) \<Rightarrow> hex_decode_loop src (dst[i := push_bit 4 hi OR lo]) (Suc i)
            | _ \<Rightarrow> (False, dst))
      else (True, dst))"
  by pat_completeness auto
termination
  by (relation "measure (\<lambda>(src, dst, i). length dst - i)") auto

declare hex_decode_loop.simps [simp del]

definition hex_decode :: "bytes \<Rightarrow> bytes \<Rightarrow> bool \<times> bytes" where
  "hex_decode src dst =
     (if length src \<noteq> length dst * 2 then (False, dst) else hex_decode_loop src dst 0)"

text \<open>The structural reference: two digits at a time.\<close>

fun unhex :: "bytes \<Rightarrow> bytes option" where
  "unhex [] = Some []"
| "unhex [c] = None"
| "unhex (a # b # r) =
     (case (nibble a, nibble b) of
        (Some hi, Some lo) \<Rightarrow> map_option ((#) (push_bit 4 hi OR lo)) (unhex r)
      | _ \<Rightarrow> None)"

lemma u8_range_cases:
  fixes c :: u8
  assumes "of_nat m \<le> c" "c \<le> of_nat n" "m < 256" "n < 256"
  shows "c \<in> set (map of_nat [m..<Suc n])"
proof -
  have "m \<le> unat c" "unat c \<le> n"
    using assms by (simp_all add: word_le_nat_alt unat_of_nat)
  then have "unat c \<in> set [m..<Suc n]" by auto
  then have "of_nat (unat c) \<in> set (map (of_nat :: nat \<Rightarrow> u8) [m..<Suc n])"
    by (simp only: set_map) (rule imageI)
  moreover have "of_nat (unat c) = c" by simp
  ultimately show ?thesis by (simp only:)
qed

lemma hex_digit_cases:
  fixes c :: u8
  shows "48 \<le> c \<Longrightarrow> c \<le> 57 \<Longrightarrow> c \<in> {48, 49, 50, 51, 52, 53, 54, 55, 56, 57}"
    and "97 \<le> c \<Longrightarrow> c \<le> 102 \<Longrightarrow> c \<in> {97, 98, 99, 100, 101, 102}"
    and "65 \<le> c \<Longrightarrow> c \<le> 70 \<Longrightarrow> c \<in> {65, 66, 67, 68, 69, 70}"
  using u8_range_cases [of 48 c 57] u8_range_cases [of 97 c 102] u8_range_cases [of 65 c 70]
  by (simp_all add: upt_rec del: set_upt)

lemma nibble_SomeD:
  assumes "nibble c = Some n"
  shows "n < 16" and "HEX ! unat n = to_ascii_lowercase c"
proof -
  have "48 \<le> c \<and> c \<le> 57 \<or> 97 \<le> c \<and> c \<le> 102 \<or> 65 \<le> c \<and> c \<le> 70"
    using assms by (auto simp: nibble_def split: if_splits)
  then have c: "c \<in> {48, 49, 50, 51, 52, 53, 54, 55, 56, 57} \<or> c \<in> {97, 98, 99, 100, 101, 102}
      \<or> c \<in> {65, 66, 67, 68, 69, 70}"
    using hex_digit_cases [of c] by blast
  show "n < 16" using c assms by (elim disjE insertE emptyE) (simp_all add: nibble_def)
  show "HEX ! unat n = to_ascii_lowercase c"
    using c assms
    by (elim disjE insertE emptyE) (simp_all add: nibble_def HEX_def to_ascii_lowercase_def)
qed

lemma nibble_HEX: "n < 16 \<Longrightarrow> nibble (HEX ! unat n) = Some n"
proof -
  assume n: "n < 16"
  then have "n \<in> {0, 1, 2, 3, 4, 5, 6, 7, 8, 9, 10, 11, 12, 13, 14, 15}"
    using u8_range_cases [of 0 n 15]
    by (simp add: word_less_nat_alt word_le_nat_alt upt_rec del: set_upt)
  then show ?thesis by (elim insertE emptyE) (simp_all add: nibble_def HEX_def)
qed

lemma hex_decode_loop_unhex:
  "i \<le> length dst \<Longrightarrow> length src = 2 * length dst \<Longrightarrow>
   (case unhex (drop (2 * i) src) of
      Some d \<Rightarrow> hex_decode_loop src dst i = (True, take i dst @ d) \<and> i + length d = length dst
    | None \<Rightarrow> \<not> fst (hex_decode_loop src dst i))"
proof (induction src dst i rule: hex_decode_loop.induct)
  case (1 src dst i)
  show ?case
  proof (cases "i < length dst")
    case False
    with "1.prems" have "i = length dst" "drop (2 * i) src = []" by auto
    then show ?thesis by (simp add: hex_decode_loop.simps)
  next
    case True
    let ?a = "src ! (i * 2)" and ?b = "src ! (i * 2 + 1)"
    have d: "drop (2 * i) src = ?a # ?b # drop (2 * Suc i) src"
      using True "1.prems" by (simp add: Cons_nth_drop_Suc mult.commute)
    show ?thesis
    proof (cases "\<exists>hi lo. nibble ?a = Some hi \<and> nibble ?b = Some lo")
      case False
      then show ?thesis
        using d True by (auto simp: hex_decode_loop.simps [of src dst i] split: option.splits)
    next
      case ex: True
      then obtain hi lo where n: "nibble ?a = Some hi" "nibble ?b = Some lo" by blast
      let ?v = "push_bit 4 hi OR lo"
      have step: "hex_decode_loop src dst i = hex_decode_loop src (dst[i := ?v]) (Suc i)"
        using n True by (simp add: hex_decode_loop.simps [of src dst i])
      have "take (Suc i) (dst[i := ?v]) = take i dst @ [?v]"
        using True by (simp add: take_Suc_conv_app_nth)
      then show ?thesis
        using "1.IH" [OF True refl n(1,2)] True "1.prems" n d step
        by (auto split: option.splits)
    qed
  qed
qed

lemma hex_decode_unhex:
  assumes "length src = 2 * length dst"
  shows "(case unhex src of Some d \<Rightarrow> hex_decode src dst = (True, d)
          | None \<Rightarrow> \<not> fst (hex_decode src dst))"
  using hex_decode_loop_unhex [of 0 dst src] assms by (auto simp: hex_decode_def split: option.splits)

lemma hex_decode_True: "hex_decode src dst = (True, d) \<Longrightarrow>
    unhex src = Some d \<and> length src = 2 * length dst"
  using hex_decode_unhex [of src dst] by (auto simp: hex_decode_def split: option.splits if_splits)

lemma and_15_take_bit: "b AND 15 = take_bit 4 (b :: u8)"
proof -
  have "(15 :: u8) = mask 4" by (simp add: mask_eq_exp_minus_1)
  then show ?thesis by (simp only: take_bit_eq_mask)
qed

lemma take_bit_nibble: "n < 16 \<Longrightarrow> take_bit 4 n = (n :: u8)"
  by (simp add: take_bit_eq_mod mod_word_less)

lemma nibbles_join:
  fixes b :: u8
  shows "push_bit 4 (drop_bit 4 b) OR (b AND 15) = b"
  by (rule bit_word_eqI)
    (auto simp: and_15_take_bit bit_or_iff bit_push_bit_iff bit_drop_bit_eq bit_take_bit_iff)

lemma unat_less_256: "unat (b :: u8) < 256"
  using unsigned_less [where w = b, where 'a = nat] by simp

lemma nibbles_lt:
  fixes b :: u8
  shows "drop_bit 4 b < 16" and "b AND 15 < 16"
proof -
  have "unat (drop_bit 4 b) = unat b div 16"
    by (simp only: unat_drop_bit_eq) (simp add: drop_bit_eq_div)
  then show "drop_bit 4 b < 16" using unat_less_256 [of b] by (simp add: word_less_nat_alt)
  have "unat (b AND 15) = unat b mod 16"
    by (simp only: and_15_take_bit unsigned_take_bit_eq) (simp add: take_bit_eq_mod)
  then show "b AND 15 < 16" by (simp add: word_less_nat_alt)
qed

lemma unhex_hex_of: "unhex (hex_of bs) = Some bs"
  by (induction bs) (simp_all add: hex_pair_def nibble_HEX nibbles_lt nibbles_join)

lemma nibbles_split:
  fixes hi lo :: u8
  assumes "hi < 16" "lo < 16"
  shows "drop_bit 4 (push_bit 4 hi OR lo) = hi" and "(push_bit 4 hi OR lo) AND 15 = lo"
proof -
  have "bit hi n = bit (take_bit 4 hi) n" "bit lo n = bit (take_bit 4 lo) n" for n
    by (simp_all only: take_bit_nibble assms)
  then have b: "bit hi n \<longrightarrow> n < 4" "bit lo n \<longrightarrow> n < 4" for n
    by (metis bit_take_bit_iff)+
  show "drop_bit 4 (push_bit 4 hi OR lo) = hi"
    by (rule bit_word_eqI) (use b in \<open>auto simp: bit_drop_bit_eq bit_or_iff bit_push_bit_iff\<close>)
  show "(push_bit 4 hi OR lo) AND 15 = lo"
    by (rule bit_word_eqI)
      (use b in \<open>auto simp: and_15_take_bit bit_take_bit_iff bit_or_iff bit_push_bit_iff\<close>)
qed

lemma hex_pair_nibbles:
  assumes "nibble a = Some hi" "nibble b = Some lo"
  shows "hex_pair (push_bit 4 hi OR lo) = [to_ascii_lowercase a, to_ascii_lowercase b]"
  using nibbles_split [OF nibble_SomeD(1) [OF assms(1)] nibble_SomeD(1) [OF assms(2)]]
  by (simp only: hex_pair_def nibble_SomeD(2) [OF assms(1)] nibble_SomeD(2) [OF assms(2)])

lemma hex_of_unhex: "unhex s = Some bs \<Longrightarrow> hex_of bs = map to_ascii_lowercase s"
proof (induction s arbitrary: bs rule: unhex.induct)
  case (3 a b r)
  then show ?case
    by (auto simp: hex_pair_nibbles split: option.splits)
qed auto

lemma unhex_length: "unhex s = Some bs \<Longrightarrow> length s = 2 * length bs"
  by (metis hex_of_unhex length_hex_of length_map)


section \<open>Decimal numbers\<close>

text \<open>
  The loop of \<open>format_usize\<close> fills the buffer from its end. The index \<open>i\<close> is decremented
  before each write; at 0 the decrement panics, which is the value None.
\<close>

fun format_usize_loop :: "bytes \<Rightarrow> nat \<Rightarrow> usize \<Rightarrow> (bytes \<times> nat) option" where
  "format_usize_loop buf 0 n = None"
| "format_usize_loop buf (Suc i) n =
     (let buf' = buf[i := byte CHR ''0'' + ucast (n mod 10)]; n' = n div 10 in
      if n' = 0 then Some (buf', i) else format_usize_loop buf' i n')"

definition format_usize :: "bytes \<Rightarrow> usize \<Rightarrow> bytes option" where
  "format_usize buf n =
     (case format_usize_loop buf (length buf) n of
        None \<Rightarrow> None
      | Some (buf', i) \<Rightarrow> Some (drop i buf'))"

text \<open>The reference: decimal digits, most significant first, and how a reader takes them.\<close>

fun decimal :: "nat \<Rightarrow> bytes" where
  "decimal n = (if n < 10 then [48 + of_nat n] else decimal (n div 10) @ [48 + of_nat (n mod 10)])"

declare decimal.simps [simp del]

definition of_decimal :: "bytes \<Rightarrow> nat" where
  "of_decimal s = foldl (\<lambda>a c. 10 * a + unat (c - 48)) 0 s"

lemma decimal_not_Nil [simp]: "decimal n \<noteq> []"
  by (subst decimal.simps) simp

lemma decimal_digits: "\<forall>c\<in>set (decimal n). 48 \<le> c \<and> c \<le> 57"
proof (induction n rule: decimal.induct)
  case (1 n)
  have digit: "48 \<le> (48 + of_nat k :: u8) \<and> (48 + of_nat k :: u8) \<le> 57" if "k < 10" for k
  proof -
    have "unat (48 + of_nat k :: u8) = 48 + k"
      using that by (simp add: unat_word_ariths unat_of_nat)
    then show ?thesis using that by (simp add: word_le_nat_alt)
  qed
  show ?case
    using "1.IH" digit by (cases "n < 10") (simp_all add: decimal.simps [of n])
qed

lemma of_decimal_decimal: "of_decimal (decimal n) = n"
proof (induction n rule: decimal.induct)
  case (1 n)
  have u: "unat (of_nat k :: u8) = k" if "k < 10" for k
    using that by (simp add: unat_of_nat)
  show ?case
  proof (cases "n < 10")
    case True
    then show ?thesis by (simp add: of_decimal_def decimal.simps [of n] u)
  next
    case False
    with "1.IH" show ?thesis by (simp add: of_decimal_def decimal.simps [of n] u)
  qed
qed

lemma decimal_inj: "decimal m = decimal n \<Longrightarrow> m = n"
  by (metis of_decimal_decimal)

lemma decimal_0: "decimal 0 = [48]"
  by (subst decimal.simps) simp

lemma decimal_no_leading_zero: "0 < n \<Longrightarrow> hd (decimal n) \<noteq> 48"
proof (induction n rule: decimal.induct)
  case (1 n)
  show ?case
  proof (cases "n < 10")
    case True
    then have "unat (of_nat n :: u8) = n" by (simp add: unat_of_nat)
    then have "(of_nat n :: u8) \<noteq> 0" using "1.prems" by auto
    then show ?thesis using True by (simp add: decimal.simps [of n])
  next
    case False
    then have "hd (decimal n) = hd (decimal (n div 10))" by (simp add: decimal.simps [of n])
    then show ?thesis using "1.IH" False by simp
  qed
qed

lemma length_decimal: "0 < k \<Longrightarrow> n < 10 ^ k \<Longrightarrow> length (decimal n) \<le> k"
proof (induction n arbitrary: k rule: decimal.induct)
  case (1 n)
  show ?case
  proof (cases "n < 10")
    case True
    with "1.prems" show ?thesis by (simp add: decimal.simps [of n])
  next
    case False
    then obtain m where k: "k = Suc m" "0 < m"
      using "1.prems" by (cases k; cases "k - 1") auto
    then have "n div 10 < 10 ^ m" using "1.prems" by (simp add: less_mult_imp_div_less mult.commute)
    with False k "1.IH" have "length (decimal (n div 10)) \<le> m" by simp
    with False k show ?thesis by (simp add: decimal.simps [of n])
  qed
qed

lemma ucast_digit: "(ucast (n mod 10 :: usize) :: u8) = of_nat (unat n mod 10)"
proof -
  have "unat (n mod 10) = unat n mod 10" by (simp add: unat_mod)
  then have "(of_nat (unat (n mod 10)) :: u8) = of_nat (unat n mod 10)" by simp
  then show ?thesis by (simp only: of_nat_unat)
qed

lemma format_usize_loop_decimal:
  "0 < i \<Longrightarrow> i \<le> length buf \<Longrightarrow> unat n < 10 ^ i \<Longrightarrow>
   \<exists>j. format_usize_loop buf i n = Some (take j buf @ decimal (unat n) @ drop i buf, j)
     \<and> j + length (decimal (unat n)) = i"
proof (induction buf i n rule: format_usize_loop.induct)
  case (2 buf i n)
  let ?c = "byte CHR ''0'' + ucast (n mod 10) :: u8"
  have c: "?c = 48 + of_nat (unat n mod 10)" by (simp add: ucast_digit)
  have dv: "unat (n div 10) = unat n div 10" by (simp add: unat_div)
  have upd: "take i (buf[i := ?c]) = take i buf" "drop i (buf[i := ?c]) = ?c # drop (Suc i) buf"
    using "2.prems" by (simp_all add: drop_update_swap Cons_nth_drop_Suc [symmetric])
  show ?case
  proof (cases "n div 10 = 0")
    case True
    then have "unat n div 10 = 0" using dv by simp
    then have "unat n < 10" by simp
    then have d: "decimal (unat n) = [?c]" using c by (simp add: decimal.simps [of "unat n"])
    have "buf[i := ?c] = take i buf @ [?c] @ drop (Suc i) buf"
      using "2.prems" by (simp add: upd_conv_take_nth_drop)
    with True show ?thesis by (simp only: d format_usize_loop.simps Let_def) simp
  next
    case False
    then have ge: "\<not> unat n < 10" using dv by (metis div_less unat_eq_zero)
    then have i: "0 < i" using "2.prems"(3) by (cases i) auto
    have "unat (n div 10) < 10 ^ i" using "2.prems"(3) dv by (simp add: less_mult_imp_div_less mult.commute)
    with "2.IH" [OF refl refl False i] "2.prems"(2) obtain j where
      j: "format_usize_loop (buf[i := ?c]) i (n div 10)
          = Some (take j (buf[i := ?c]) @ decimal (unat n div 10) @ drop i (buf[i := ?c]), j)"
      "j + length (decimal (unat n div 10)) = i"
      by (auto simp: dv)
    then have "take j (buf[i := ?c]) = take j buf" by simp
    with j False c upd ge show ?thesis by (simp add: decimal.simps [of "unat n"] Let_def)
  qed
qed simp

lemma format_usize_decimal:
  assumes "length buf = 20"
  shows "format_usize buf n = Some (decimal (unat n))"
proof -
  have "unat n < 10 ^ 20" using unsigned_less [where w = n, where 'a = nat] by simp
  then obtain j where "format_usize_loop buf 20 n = Some (take j buf @ decimal (unat n) @ drop 20 buf, j)"
    "j + length (decimal (unat n)) = 20"
    using format_usize_loop_decimal [of 20 buf n] assms by auto
  then show ?thesis using assms by (simp add: format_usize_def)
qed

end
