(* ===== verification/Ngx_Http.thy ===== *)
theory Ngx_Http
  imports Xkey_Hex Xkey_Key Ngx_Containers
begin

text \<open>
  The request and the operating system as the handlers see them. A request carries what NGINX
  has parsed and the return codes its calls will give; what a handler does to it is the log
  \<open>r_calls\<close>, in order. The operating system, the request pool and NGINX's file helpers are a
  record of operations over a state \<open>'w\<close>; the locale \<open>posix\<close> says how those operations act on
  the files, \<open>posix_live\<close> adds that they succeed on the files that exist.
\<close>

section \<open>Requests\<close>

definition HTTP_OK :: int where "HTTP_OK = 200"
definition HTTP_NO_CONTENT :: int where "HTTP_NO_CONTENT = 204"
definition HTTP_BAD_REQUEST :: int where "HTTP_BAD_REQUEST = 400"
definition HTTP_NOT_FOUND :: int where "HTTP_NOT_FOUND = 404"
definition HTTP_NOT_ALLOWED :: int where "HTTP_NOT_ALLOWED = 405"

datatype call =
    AddHeaderOut bytes bytes
  | DiscardRequestBody
  | SetStatus int
  | SetContentLengthN nat
  | SendHeader
  | OutputFilter bytes bool

text \<open>
  \<open>r_upstream\<close> is the upstream's \<open>cacheable\<close> flag, \<open>r_cache\<close> the request's cache entry: whether
  it has a node, whether its file is open, and its key.
\<close>

record cache_ref =
  cr_node :: bool
  cr_file :: bool
  cr_key :: cache_key

datatype http_method = GET | HEAD | OTHER

record request =
  r_method_name :: bytes
  r_method :: http_method
  r_headers_in :: "(bytes \<times> bytes) list"
  r_headers_out :: "(bytes \<times> bytes) list"
  r_main :: bool
  r_header_only :: bool
  r_upstream :: "bool option"
  r_cache :: "cache_ref option"
  r_discard_rc :: int
  r_send_rc :: int
  r_output_rc :: int
  r_calls :: "call list"

definition log_call :: "call \<Rightarrow> request \<Rightarrow> request" where
  "log_call x r = r\<lparr>r_calls := r_calls r @ [x]\<rparr>"

definition add_header_out :: "bytes \<Rightarrow> bytes \<Rightarrow> request \<Rightarrow> request" where
  "add_header_out name value = log_call (AddHeaderOut name value)"

definition discard_request_body :: "request \<Rightarrow> int \<times> request" where
  "discard_request_body r = (r_discard_rc r, log_call DiscardRequestBody r)"

definition send_header :: "request \<Rightarrow> int \<times> request" where
  "send_header r = (r_send_rc r, log_call SendHeader r)"

lemma log_call_simps [simp]:
  "r_calls (log_call x r) = r_calls r @ [x]"
  "r_method_name (log_call x r) = r_method_name r"
  "r_headers_in (log_call x r) = r_headers_in r"
  "r_headers_out (log_call x r) = r_headers_out r"
  "r_main (log_call x r) = r_main r"
  "r_send_rc (log_call x r) = r_send_rc r"
  "r_discard_rc (log_call x r) = r_discard_rc r"
  "r_output_rc (log_call x r) = r_output_rc r"
  "r_header_only (log_call x r) = r_header_only r"
  by (simp_all add: log_call_def)

section \<open>The operating system\<close>

text \<open>
  \<open>ngx_path_t\<close>: the directory, the length of the level part of a file name, and the levels.
\<close>

record cpath =
  p_name :: bytes
  p_len :: nat
  p_level :: "nat list"

text \<open>
  \<^item> \<open>os_open\<close>, \<open>os_pread\<close>, \<open>os_close\<close>, \<open>os_unlink\<close>: the calls of \<open>libc\<close>; a read gives None on
    error, else what it read;
  \<^item> \<open>os_walk\<close>: \<open>ngx_walk_tree\<close>: the files it hands to the file handler, in order, and its
    return code, for handlers that always return \<open>NGX_OK\<close>;
  \<^item> \<open>pool_alloc\<close>: \<open>alloc_unaligned\<close> of the request pool, with the bytes the memory holds;
  \<^item> \<open>hashed_filename\<close>: \<open>ngx_create_hashed_filename\<close>, which fills in the level directories;
  \<^item> \<open>hdr_size\<close> and the \<open>hdr_\<close> readers: the layout of \<open>ngx_http_file_cache_header_t\<close>, generated
    by bindgen; \<open>cache_version\<close>: \<open>NGX_HTTP_CACHE_VERSION\<close>.
\<close>

record 'w os =
  os_open :: "bytes \<Rightarrow> 'w \<Rightarrow> int \<times> 'w"
  os_pread :: "int \<Rightarrow> nat \<Rightarrow> nat \<Rightarrow> 'w \<Rightarrow> bytes option"
  os_close :: "int \<Rightarrow> 'w \<Rightarrow> 'w"
  os_unlink :: "bytes \<Rightarrow> 'w \<Rightarrow> int \<times> 'w"
  os_walk :: "bytes \<Rightarrow> 'w \<Rightarrow> bytes list \<times> int"
  pool_alloc :: "nat \<Rightarrow> 'w \<Rightarrow> bytes option \<times> 'w"
  hashed_filename :: "cpath \<Rightarrow> bytes \<Rightarrow> nat \<Rightarrow> bytes"
  hdr_size :: nat
  hdr_version :: "bytes \<Rightarrow> nat"
  hdr_header_start :: "bytes \<Rightarrow> nat"
  hdr_body_start :: "bytes \<Rightarrow> nat"
  cache_version :: nat

text \<open>The bytes a C string function reads from a buffer.\<close>

definition c_string :: "bytes \<Rightarrow> bytes" where
  "c_string s = takeWhile (\<lambda>c. c \<noteq> 0) s"

lemma c_string_NUL [simp]: "0 \<notin> set s \<Longrightarrow> c_string (s @ 0 # r) = s"
  by (auto simp: c_string_def takeWhile_append2 takeWhile_tail)

lemma c_string_id [simp]: "0 \<notin> set s \<Longrightarrow> c_string s = s"
  by (auto simp: c_string_def takeWhile_eq_all_conv)

text \<open>
  \<open>files w\<close> are the files there are, by path. A read may fail or be short; the level part a
  hashed name is given depends on the path's levels and the name only.
\<close>

locale posix =
  fixes S :: "'w os"
    and files :: "'w \<Rightarrow> bytes \<Rightarrow> bytes option"
    and dirs :: "cpath \<Rightarrow> bytes \<Rightarrow> bytes"
  assumes open_files: "os_open S p w = (fd, w') \<Longrightarrow> files w' = files w"
    and close_files: "files (os_close S fd w) = files w"
    and pread_open:
      "os_open S p w = (fd, w') \<Longrightarrow> 0 \<le> fd \<Longrightarrow>
       \<exists>d. files w p = Some d
         \<and> (\<forall>n off b. os_pread S fd n off w' = Some b \<longrightarrow> (\<exists>k\<le>n. b = take k (drop off d)))"
    and unlink_files:
      "os_unlink S p w = (rc, w') \<Longrightarrow>
       (if rc = 0 then files w p \<noteq> None \<and> files w' = (files w)(p := None) else files w' = files w)"
    and alloc_files: "pool_alloc S n w = (b, w') \<Longrightarrow> files w' = files w"
    and alloc_length: "pool_alloc S n w = (Some m, w') \<Longrightarrow> length m = n"
    and hashed_levels:
      "length m = 1 + p_len cp \<Longrightarrow> length h = 2 * CACHE_KEY_LEN \<Longrightarrow>
       n = length (p_name cp) + 1 + p_len cp + 2 * CACHE_KEY_LEN \<Longrightarrow>
       hashed_filename S cp (p_name cp @ m @ h @ [0]) n = p_name cp @ dirs cp h @ h @ [0]"
    and dirs_ok:
      "length h = 2 * CACHE_KEY_LEN \<Longrightarrow> 0 \<notin> set h \<Longrightarrow> 0 \<notin> set (dirs cp h)"
    and walk_names: "x \<in> set (fst (os_walk S dir w)) \<Longrightarrow> 0 \<notin> set x"

text \<open>
  The calls that \<open>posix\<close> allows to fail succeed on the files that exist, and a walk meets every
  file under its directory, once.
\<close>

definition in_dir :: "bytes \<Rightarrow> bytes \<Rightarrow> bool" where
  "in_dir dir p \<longleftrightarrow> take (Suc (length dir)) p = dir @ [byte CHR ''/''] \<and> 0 \<notin> set p"

locale posix_live = posix +
  assumes open_live: "files w p = Some d \<Longrightarrow> os_open S p w = (fd, w') \<Longrightarrow> 0 \<le> fd"
    and pread_live:
      "os_open S p w = (fd, w') \<Longrightarrow> files w p = Some d \<Longrightarrow>
       os_pread S fd n off w' = Some (take n (drop off d))"
    and unlink_live: "files w p \<noteq> None \<Longrightarrow> fst (os_unlink S p w) = 0"
    and alloc_live: "fst (pool_alloc S n w) \<noteq> None"
    and walk_live: "files w p \<noteq> None \<Longrightarrow> in_dir dir p \<Longrightarrow> p \<in> set (fst (os_walk S dir w))"
    and walk_distinct: "distinct (fst (os_walk S dir w))"
    and walk_rc: "snd (os_walk S dir w) = NGX_OK"

section \<open>A disk\<close>

text \<open>
  A concrete operating system for the witnesses: the files with their contents, and the
  contents behind each open descriptor. A cache file header here is a version byte and two
  big-endian offsets. The level directories are the ones \<open>ngx_create_hashed_filename\<close> writes:
  each level takes its characters from the end of the name.
\<close>

record disk =
  dk_files :: "(bytes \<times> bytes) list"
  dk_open :: "bytes list"

definition disk_files :: "disk \<Rightarrow> bytes \<Rightarrow> bytes option" where
  "disk_files w = map_of (dk_files w)"

definition disk_open :: "bytes \<Rightarrow> disk \<Rightarrow> int \<times> disk" where
  "disk_open p w =
     (case map_of (dk_files w) p of
        None \<Rightarrow> (-1, w)
      | Some d \<Rightarrow> (int (length (dk_open w)), w\<lparr>dk_open := dk_open w @ [d]\<rparr>))"

definition disk_pread :: "int \<Rightarrow> nat \<Rightarrow> nat \<Rightarrow> disk \<Rightarrow> bytes option" where
  "disk_pread fd n off w =
     (if 0 \<le> fd \<and> nat fd < length (dk_open w) then Some (take n (drop off (dk_open w ! nat fd)))
      else None)"

definition disk_unlink :: "bytes \<Rightarrow> disk \<Rightarrow> int \<times> disk" where
  "disk_unlink p w =
     (case map_of (dk_files w) p of
        None \<Rightarrow> (-1, w)
      | Some d \<Rightarrow> (0, w\<lparr>dk_files := filter (\<lambda>e. fst e \<noteq> p) (dk_files w)\<rparr>))"

fun level_dirs :: "nat list \<Rightarrow> bytes \<Rightarrow> bytes" where
  "level_dirs [] h = []"
| "level_dirs (l # ls) h =
     drop (length h - l) h @ [byte CHR ''/''] @ level_dirs ls (take (length h - l) h)"

definition disk_dirs :: "cpath \<Rightarrow> bytes \<Rightarrow> bytes" where
  "disk_dirs p h =
     take (1 + p_len p) (byte CHR ''/'' # level_dirs (p_level p) h @ replicate (p_len p) 47)"

definition disk_hashed :: "cpath \<Rightarrow> bytes \<Rightarrow> nat \<Rightarrow> bytes" where
  "disk_hashed p file n =
     (let n0 = length (p_name p); h = take (2 * CACHE_KEY_LEN) (drop (n - 2 * CACHE_KEY_LEN) file)
      in take n0 file @ disk_dirs p h @ drop (n0 + 1 + p_len p) file)"

definition be16 :: "bytes \<Rightarrow> nat \<Rightarrow> nat" where
  "be16 d i = 256 * unat (d ! i) + unat (d ! Suc i)"

definition disk_os :: "disk os" where
  "disk_os =
     \<lparr>os_open = disk_open, os_pread = disk_pread, os_close = (\<lambda>fd w. w), os_unlink = disk_unlink,
      os_walk = (\<lambda>dir w. (filter (in_dir dir) (remdups (map fst (dk_files w))), NGX_OK)),
      pool_alloc = (\<lambda>n w. (Some (replicate n 0), w)), hashed_filename = disk_hashed,
      hdr_size = 5, hdr_version = (\<lambda>h. unat (h ! 0)), hdr_header_start = (\<lambda>h. be16 h 1),
      hdr_body_start = (\<lambda>h. be16 h 3), cache_version = 5\<rparr>"

lemma map_of_filter_neq: "map_of (filter (\<lambda>e. fst e \<noteq> k) xs) = (map_of xs)(k := None)"
  by (induction xs) auto

lemma level_dirs_no_NUL: "0 \<notin> set h \<Longrightarrow> 0 \<notin> set (level_dirs ls h)"
  by (induction ls h rule: level_dirs.induct) (auto dest: in_set_dropD in_set_takeD)

lemma disk_posix: "posix_live disk_os disk_files disk_dirs"
proof (unfold_locales, goal_cases)
  case (3 p w fd w') then show ?case
    by (auto simp: disk_os_def disk_open_def disk_files_def disk_pread_def split: option.splits)
next
  case (7 m p h n) then show ?case by (simp add: disk_os_def disk_hashed_def Let_def)
next
  case (8 h p)
  then show ?case
    using level_dirs_no_NUL [of h "p_level p"]
    by (auto simp: disk_dirs_def take_Cons' dest!: in_set_takeD)
next
  case (9 n dir w) then show ?case by (simp add: disk_os_def in_dir_def)
next
  case (14 w p dir)
  then have "p \<in> set (map fst (dk_files w))"
    by (auto simp: disk_files_def dest!: map_of_SomeD intro: rev_image_eqI)
  then show ?case using 14 by (simp add: disk_os_def)
qed (auto simp: disk_os_def disk_open_def disk_files_def disk_pread_def disk_unlink_def
       map_of_filter_neq split: option.splits)

interpretation disk: posix_live disk_os disk_files disk_dirs
  by (rule disk_posix)

lemmas disk_eval = disk_os_def disk_open_def disk_files_def disk_pread_def disk_unlink_def
  disk_dirs_def disk_hashed_def be16_def c_string_def in_dir_def

end
