(* ===== verification/Module_Conf.thy ===== *)
theory Module_Conf
  imports Index_Zone Cache_Tree Ngx_Http Xkey_Text
begin

text \<open>
  The module's configuration (\<open>src/lib.rs\<close>): the records, the four directives that have a
  handler of their own, the merge of location configurations, and how a request reaches its file
  cache and its tag index. A pointer to a shared zone is the zone's number; \<open>NGX_CONF_OK\<close> and
  \<open>NGX_CONF_ERROR\<close> are the truth value of \<open>conf_ok\<close>. A panic is None.
\<close>

section \<open>Configuration records\<close>

type_synonym zone_id = nat

record main_conf =
  shm_zone :: "zone_id option"
  header :: bytes

record loc_conf =
  cache_zone :: "zone_id option"
  fallback :: int

definition NGX_CONF_UNSET :: int where
  "NGX_CONF_UNSET = -1"

definition main_conf_default :: main_conf where
  "main_conf_default = \<lparr>shm_zone = None, header = bytes_of ''xkey''\<rparr>"

definition loc_conf_default :: loc_conf where
  "loc_conf_default = \<lparr>cache_zone = None, fallback = NGX_CONF_UNSET\<rparr>"

definition merge :: "loc_conf \<Rightarrow> loc_conf \<Rightarrow> loc_conf" where
  "merge prev conf =
     (if fallback conf = NGX_CONF_UNSET
      then conf\<lparr>fallback := (if fallback prev = NGX_CONF_UNSET then 1 else fallback prev)\<rparr>
      else conf)"

text \<open>Merging along the nesting of blocks, outermost first; NGINX starts from a default.\<close>

definition merge_path :: "loc_conf list \<Rightarrow> loc_conf" where
  "merge_path confs = foldl merge loc_conf_default confs"

section \<open>Directives\<close>

datatype owner = XkeyModule | ProxyModule
datatype zone_handler = ZoneInit
datatype content_handler = PurgeHandler | StatusHandler

record shm =
  sz_name :: bytes
  sz_size :: usize
  sz_owner :: owner
  sz_init :: "zone_handler option"
  sz_data :: bool

text \<open>
  The zones of a configuration cycle. \<open>ngx_parse_size\<close> and \<open>ngx_shared_memory_add\<close> are
  NGINX's: the first gives -1 for a malformed size, the second finds a zone or adds one, or gives
  null. \<open>clcf\<close> is the content handler of the location.
\<close>

type_synonym cycle = "zone_id \<Rightarrow> shm option"

record conf_env =
  parse_size :: "bytes \<Rightarrow> int"
  shared_memory_add :: "bytes \<Rightarrow> usize \<Rightarrow> owner \<Rightarrow> cycle \<Rightarrow> zone_id option \<times> cycle"

text \<open>\<open>name size\<close> or \<open>name:size\<close>; None is the error that a size is required.\<close>

definition zone_args :: "bytes list \<Rightarrow> (bytes \<times> bytes) option" where
  "zone_args args =
     (if 3 \<le> length args then Some (args ! 1, args ! 2)
      else
        (case position (\<lambda>c. c = byte CHR '':'') (args ! 1) of
           None \<Rightarrow> None
         | Some colon \<Rightarrow> Some (take colon (args ! 1), tl (drop colon (args ! 1)))))"

definition xkey_zone ::
  "conf_env \<Rightarrow> bytes list \<Rightarrow> main_conf \<times> cycle \<Rightarrow> (bool \<times> main_conf \<times> cycle) option" where
  "xkey_zone E args s =
     (let (xmcf, cy) = s in
      if shm_zone xmcf \<noteq> None then Some (False, xmcf, cy)
      else if length args < 2 then None
      else
        (case zone_args args of
           None \<Rightarrow> Some (False, xmcf, cy)
         | Some (name, size_arg) \<Rightarrow>
             (let size = parse_size E size_arg in
              if size = -1 then Some (False, xmcf, cy)
              else
                (case shared_memory_add E name (of_int size) XkeyModule cy of
                   (None, cy') \<Rightarrow> Some (False, xmcf\<lparr>shm_zone := None\<rparr>, cy')
                 | (Some z, cy') \<Rightarrow>
                     (case cy' z of
                        None \<Rightarrow> None
                      | Some zone \<Rightarrow>
                          Some (True, xmcf\<lparr>shm_zone := Some z\<rparr>,
                            cy'(z \<mapsto> zone\<lparr>sz_init := Some ZoneInit, sz_data := True\<rparr>)))))))"

definition xkey_header :: "bytes list \<Rightarrow> main_conf \<Rightarrow> (bool \<times> main_conf) option" where
  "xkey_header args xmcf =
     (if length args < 2 then None else Some (True, xmcf\<lparr>header := args ! 1\<rparr>))"

definition xkey_purge ::
  "conf_env \<Rightarrow> bytes list \<Rightarrow> loc_conf \<times> content_handler option \<times> cycle \<Rightarrow>
   (bool \<times> loc_conf \<times> content_handler option \<times> cycle) option" where
  "xkey_purge E args s =
     (let (xlcf, clcf, cy) = s in
      if cache_zone xlcf \<noteq> None then Some (False, xlcf, clcf, cy)
      else if length args < 2 then None
      else
        (case shared_memory_add E (args ! 1) 0 ProxyModule cy of
           (None, cy') \<Rightarrow> Some (False, xlcf\<lparr>cache_zone := None\<rparr>, clcf, cy')
         | (Some z, cy') \<Rightarrow> Some (True, xlcf\<lparr>cache_zone := Some z\<rparr>, Some PurgeHandler, cy')))"

definition xkey_status :: "content_handler option \<Rightarrow> bool \<times> content_handler option" where
  "xkey_status clcf = (True, Some StatusHandler)"

section \<open>What a request reaches\<close>

text \<open>
  \<open>conf\<close> is a request's configuration. A \<open>file_cache\<close> is what the zone of \<open>proxy_cache_path\<close>
  holds, \<open>None\<close> while its \<open>data\<close> is null. The world of a worker: the tag index zone, the file
  caches, the operating system.
\<close>

record conf =
  main_conf :: "main_conf option"
  location_conf :: "loc_conf option"

record file_cache =
  fc_path :: "cpath option"
  fc_tree :: cache_tree

record ('a, 'm, 'q, 'w) world =
  w_zone :: "('a, 'm, 'q) zone"
  w_caches :: "zone_id \<Rightarrow> file_cache option"
  w_os :: 'w

definition file_cache :: "zone_id option \<Rightarrow> ('a, 'm, 'q, 'w) world \<Rightarrow> (zone_id \<times> file_cache) option" where
  "file_cache z w =
     (case z of
        None \<Rightarrow> None
      | Some i \<Rightarrow> (case w_caches w i of None \<Rightarrow> None | Some c \<Rightarrow> Some (i, c)))"

text \<open>
  Whether the request has a tag index to work on; looking it up may place the index. The
  slab pool of the zone is what an insert allocates from.
\<close>

definition index_for ::
  "('a, 'm, 'q) ngx \<Rightarrow> conf \<Rightarrow> ('a, 'm, 'q) zone \<Rightarrow> bool \<times> ('a, 'm, 'q) zone" where
  "index_for N conf z =
     (case main_conf conf of
        None \<Rightarrow> (False, z)
      | Some xmcf \<Rightarrow>
          (if shm_zone xmcf = None then (False, z)
           else (case shared N z of (Inl e, z') \<Rightarrow> (False, z') | (Inr ti, z') \<Rightarrow> (True, z'))))"

section \<open>Lemmas\<close>

lemma merge_set: "fallback (merge prev conf) \<noteq> NGX_CONF_UNSET"
  by (simp add: merge_def NGX_CONF_UNSET_def)

lemma merge_cache_zone [simp]: "cache_zone (merge prev conf) = cache_zone conf"
  by (simp add: merge_def)

text \<open>The innermost block that sets the flag decides; unset everywhere means on.\<close>

lemma merge_path_snoc: "merge_path (confs @ [c]) = merge (merge_path confs) c"
  by (simp add: merge_path_def)

lemma merge_path_Nil: "fallback (merge_path []) = NGX_CONF_UNSET"
  by (simp add: merge_path_def loc_conf_default_def)

lemma merge_path_fallback:
  "confs \<noteq> [] \<Longrightarrow> fallback (merge_path confs) =
     (let xs = filter (\<lambda>x. x \<noteq> NGX_CONF_UNSET) (map fallback confs)
      in if xs = [] then 1 else last xs)"
proof (induction confs rule: rev_induct)
  case (snoc c confs)
  show ?case
  proof (cases "confs = []")
    case True
    then show ?thesis
      using merge_path_snoc [of "[]" c] merge_path_Nil by (simp add: merge_def NGX_CONF_UNSET_def)
  next
    case False
    have "last xs \<noteq> NGX_CONF_UNSET" if "xs = filter (\<lambda>x. x \<noteq> NGX_CONF_UNSET) ys" "xs \<noteq> []" for xs ys
      using that last_in_set by force
    with False snoc.IH show ?thesis
      by (simp add: merge_path_snoc merge_def Let_def NGX_CONF_UNSET_def)
  qed
qed simp

text \<open>Both spellings of \<open>xkey_zone\<close> name the same zone.\<close>

lemma zone_args_colon:
  assumes "58 \<notin> set name"
  shows "zone_args [d, name @ [58] @ sz] = zone_args [d, name, sz]"
proof -
  have "position (\<lambda>c. c = 58) (name @ 58 # sz) = Some (length name)"
    using assms by (intro position_append_first) auto
  then show ?thesis by (simp add: zone_args_def)
qed

lemma zone_args_split:
  assumes "zone_args [d, arg] = Some (name, sz)"
  shows "arg = name @ [58] @ sz \<and> 58 \<notin> set name"
proof -
  obtain i where i: "position (\<lambda>c. c = 58) arg = Some i" "name = take i arg" "sz = tl (drop i arg)"
    using assms by (auto simp: zone_args_def split: option.splits)
  note p = position_SomeD [OF i(1)]
  then have "drop i arg = 58 # drop (Suc i) arg" by (metis Cons_nth_drop_Suc)
  then have "arg = name @ [58] @ sz" using i by (metis append_Cons append_Nil append_take_drop_id list.sel(3))
  moreover have "58 \<notin> set name" using p i(2) by (auto simp: in_set_conv_nth)
  ultimately show ?thesis by blast
qed

lemma xkey_zone_once:
  "xkey_zone E args (xmcf, cy) = Some (True, xmcf', cy') \<Longrightarrow>
   shm_zone xmcf = None
   \<and> (\<exists>z zone. shm_zone xmcf' = Some z \<and> header xmcf' = header xmcf \<and> cy' z = Some zone
        \<and> sz_init zone = Some ZoneInit \<and> sz_data zone)"
  by (auto simp: xkey_zone_def Let_def split: if_splits option.splits prod.splits)

end
