(* ===== verification/Record_Filter.thy ===== *)
theory Record_Filter
  imports Index_Room Module_Conf
begin

text \<open>
  The recording header filter (\<open>src/record.rs\<close>): for a response of a main request that goes
  into the cache, the tags of its header are recorded with its cache key. The filter always
  passes the response on. The lemmas say what a response can add to the index, and that
  nothing is touched for a response that is not being cached.
\<close>

section \<open>The filter\<close>

text \<open>\<open>r_upstream\<close> is the upstream's \<open>cacheable\<close> flag, None without an upstream.\<close>

definition response_key :: "request \<Rightarrow> cache_key option" where
  "response_key r =
     (case r_upstream r of
        None \<Rightarrow> None
      | Some cacheable \<Rightarrow>
          if \<not> cacheable then None
          else
            (case r_cache r of
               None \<Rightarrow> None
             | Some cache \<Rightarrow>
                 if \<not> cr_node cache \<and> \<not> cr_file cache then None else Some (cr_key cache)))"

text \<open>
  The header of the model's list that a name finds first is \<open>header_lookup\<close>, the loop over
  \<open>headers_out_iterator\<close>. None is a fault of the index.
\<close>

definition record_response ::
  "('a, 'm, 'q) ngx \<Rightarrow> conf \<Rightarrow> request \<Rightarrow> ('a, 'm, 'q) zone \<Rightarrow> ('a, 'm, 'q) zone option" where
  "record_response N conf r z =
     (if \<not> r_main r then Some z
      else
        (case response_key r of
           None \<Rightarrow> Some z
         | Some key \<Rightarrow>
        (case main_conf conf of
           None \<Rightarrow> Some z
         | Some xmcf \<Rightarrow>
             if shm_zone xmcf = None then Some z
             else
               (case shared N z of
                  (Inl e, z') \<Rightarrow> Some z'
                | (Inr ti, z') \<Rightarrow>
               (case z_slab z' of
                  None \<Rightarrow> Some z'
                | Some alloc \<Rightarrow>
               (case header_lookup (header xmcf) (r_headers_out r) of
                  None \<Rightarrow> Some z'
                | Some tags \<Rightarrow>
                    map_option snd (insert_each (zone_insert N) key (split_tags tags) z')))))))"

text \<open>The filter chain: what comes after this module's filter, and the head of the chain.\<close>

type_synonym filter_fn = "request \<Rightarrow> int"

definition header_filter ::
  "('a, 'm, 'q) ngx \<Rightarrow> conf \<Rightarrow> filter_fn option \<Rightarrow> request \<Rightarrow> ('a, 'm, 'q) zone \<Rightarrow>
   (int \<times> ('a, 'm, 'q) zone) option" where
  "header_filter N conf next_filter r z =
     (case record_response N conf r z of
        None \<Rightarrow> None
      | Some z' \<Rightarrow>
          Some ((case next_filter of Some f \<Rightarrow> f r | None \<Rightarrow> NGX_ERROR), z'))"

record 'f filters =
  next_header_filter :: "'f option"
  top_header_filter :: "'f option"

definition install_filter :: "'f \<Rightarrow> 'f filters \<Rightarrow> int \<times> 'f filters" where
  "install_filter f c =
     (NGX_OK, c\<lparr>next_header_filter := top_header_filter c, top_header_filter := Some f\<rparr>)"

section \<open>What a response records\<close>

text \<open>The tags a response carries and the key it is stored under, when it is recorded.\<close>

definition response_tags :: "conf \<Rightarrow> request \<Rightarrow> (cache_key \<times> bytes list) option" where
  "response_tags conf r =
     (if \<not> r_main r then None
      else
        (case (response_key r, main_conf conf) of
           (Some key, Some xmcf) \<Rightarrow>
             if shm_zone xmcf = None then None
             else map_option (\<lambda>v. (key, split_tags v)) (header_lookup (header xmcf) (r_headers_out r))
         | _ \<Rightarrow> None))"

lemma record_response_shared:
  assumes "shared N z = (Inr ti, z)" "z_slab z \<noteq> None"
  shows "record_response N conf r z =
    (case response_tags conf r of
       None \<Rightarrow> Some z
     | Some (key, tags) \<Rightarrow> map_option snd (insert_each (zone_insert N) key tags z))"
  using assms by (auto simp: record_response_def response_tags_def split: option.splits)

lemma record_response_other:
  assumes "\<not> r_main r \<or> response_key r = None \<or> main_conf conf = None"
  shows "record_response N conf r z = Some z"
  using assms by (auto simp: record_response_def split: option.split)

lemma response_key_Some:
  "response_key r = Some key \<longleftrightarrow> r_upstream r = Some True
     \<and> (\<exists>c. r_cache r = Some c \<and> (cr_node c \<or> cr_file c) \<and> cr_key c = key)"
  by (auto simp: response_key_def split: option.splits)

text \<open>The pairs of tag and key that an abstract list holds.\<close>

definition lru_pairs :: "lru \<Rightarrow> (bytes \<times> cache_key) set" where
  "lru_pairs L = {(t, k). \<exists>ks. map_of L t = Some ks \<and> k \<in> set ks}"

lemma lru_pairs_iff: "(t, k) \<in> lru_pairs L \<longleftrightarrow> (\<exists>ks. map_of L t = Some ks \<and> k \<in> set ks)"
  by (simp add: lru_pairs_def)

lemma lru_pairs_Nil [simp]: "lru_pairs [] = {}"
  by (simp add: lru_pairs_def)

lemma lru_pairs_remove: "lru_pairs (lru_remove tag L) = {p \<in> lru_pairs L. fst p \<noteq> tag}"
  by (auto simp: lru_pairs_def map_of_remove split: if_splits)

text \<open>Recording a response adds the pairs of its key with its tags only.\<close>

lemma lru_record_all_pairs:
  "lru_ok L \<Longrightarrow> lru_pairs (lru_record_all key ts L) \<subseteq> lru_pairs L \<union> set ts \<times> {key}"
proof (induction ts arbitrary: L)
  case (Cons t ts)
  let ?L = "if tag_accepted t then lru_record t key (lru_touch t L) else L"
  have ok: "lru_ok ?L" using Cons.prems by (simp add: lru_ok_record lru_ok_touch tag_accepted_def)
  have "lru_pairs ?L \<subseteq> lru_pairs L \<union> {(t, key)}"
    using Cons.prems
    by (auto simp: lru_pairs_def map_of_record_touch dest: subsetD [OF set_add_key]
        split: option.splits if_splits)
  then show ?case using Cons.IH [OF ok] by auto
qed simp

text \<open>A tag that sheds no key keeps the pairs it has.\<close>

lemma lru_record_all_grows:
  "lru_ok L \<Longrightarrow> \<not> lru_sheds t key L \<Longrightarrow> (t, k) \<in> lru_pairs L \<Longrightarrow>
   (t, k) \<in> lru_pairs (lru_record_all key ts L)"
proof (induction ts arbitrary: L)
  case (Cons t0 ts)
  obtain ks where ks: "map_of L t = Some ks" "k \<in> set ks" using Cons.prems(3) by (auto simp: lru_pairs_iff)
  let ?L = "lru_record t0 key (lru_touch t0 L)"
  show ?case
  proof (cases "tag_accepted t0")
    case True
    have ok: "lru_ok ?L" using Cons.prems(1) True by (simp add: lru_ok_record lru_ok_touch tag_accepted_def)
    show ?thesis
    proof (cases "t0 = t")
      case True
      have "map_of ?L t = Some (add_key key ks)"
        using ks(1) True Cons.prems(1) by (simp add: map_of_record_touch)
      moreover have "k \<in> set (add_key key ks)"
        using Cons.prems(2) ks by (auto simp: lru_sheds_def add_key_def)
      ultimately show ?thesis
        using lru_record_all_keeps [OF ok _ add_key_mem] \<open>tag_accepted t0\<close> by (simp add: lru_pairs_iff)
    next
      case False
      then have "map_of ?L t = Some ks" using ks(1) Cons.prems(1) by (simp add: map_of_record_touch)
      then show ?thesis
        using Cons.IH [OF ok] ks Cons.prems(2) True by (simp add: lru_sheds_def lru_pairs_iff)
    qed
  qed (use Cons in simp)
qed simp

context tag_store
begin

lemma insert_each_pairs:
  assumes "rel z L"
  obtains w z' L' where "insert_each ins key ts z = Some (w, z')" "rel z' L'"
    "lru_pairs L' \<subseteq> lru_pairs L \<union> set ts \<times> {key}"
  using insert_each_sound [OF assms, of key ts] by (fastforce simp: lru_pairs_def)

end

definition response_pairs :: "conf \<Rightarrow> request \<Rightarrow> (bytes \<times> cache_key) set" where
  "response_pairs conf r =
     (case response_tags conf r of None \<Rightarrow> {} | Some (key, tags) \<Rightarrow> set tags \<times> {key})"

context ngx_env
begin

lemma record_response_rel:
  assumes "zone_rel N ring map_ok z L"
  shows "\<exists>z' L'. record_response N conf r z = Some z' \<and> zone_rel N ring map_ok z' L'
    \<and> lru_pairs L' \<subseteq> lru_pairs L \<union> response_pairs conf r
    \<and> (response_tags conf r = None \<longrightarrow> z' = z)"
proof -
  obtain ti where ti: "shared N z = (Inr ti, z)" using shared_adopts [OF assms] by blast
  have slab: "z_slab z \<noteq> None" using assms by (simp add: zone_rel_def)
  note rr = record_response_shared [OF ti slab, of conf r]
  show ?thesis
  proof (cases "response_tags conf r")
    case None
    then show ?thesis using rr assms by auto
  next
    case (Some kt)
    obtain key tags where kt: "kt = (key, tags)" by (cases kt)
    obtain w z' L' where "insert_each (zone_insert N) key tags z = Some (w, z')"
      "zone_rel N ring map_ok z' L'" "lru_pairs L' \<subseteq> lru_pairs L \<union> set tags \<times> {key}"
      by (rule store.insert_each_pairs [OF assms])
    then show ?thesis using rr Some by (auto simp: kt response_pairs_def)
  qed
qed

end

context ngx_room
begin

lemma record_response_room:
  assumes "zone_rel N ring map_ok z L" "response_tags conf r = Some (key, tags)"
  shows "\<exists>z'. record_response N conf r z = Some z'
    \<and> zone_rel N ring map_ok z' (lru_record_all key tags L)"
proof -
  obtain ti where ti: "shared N z = (Inr ti, z)" using shared_adopts [OF assms(1)] by blast
  have "z_slab z \<noteq> None" using assms(1) by (simp add: zone_rel_def)
  then show ?thesis
    using record_response_shared [OF ti, of conf r] assms(2)
      room.insert_each_room [OF assms(1), of key tags] by auto
qed

end

end
