(* ===== verification/Purge.thy ===== *)
theory Purge
  imports Scan
begin

text \<open>
  The purge handler (\<open>src/purge.rs\<close>): it checks the request, takes the tag's keys from the
  index and invalidates each, or scans the cache directory when the index has nothing, and
  reports what it did in response headers. None is a fault: a dangling link of the index, a
  dangling node of the cache tree, or a panic. \<open>invalidate\<close> is in \<open>Cache_Tree\<close>.
\<close>

definition PURGE_HEADER :: bytes where
  "PURGE_HEADER = bytes_of ''xkey-purge''"

definition PURGE_METHOD :: bytes where
  "PURGE_METHOD = bytes_of ''PURGE''"

section \<open>The request\<close>

definition is_purge :: "request \<Rightarrow> bool" where
  "is_purge r \<longleftrightarrow> r_method_name r = PURGE_METHOD"

fun purge_tag_loop :: "(bytes \<times> bytes) list \<Rightarrow> bytes option" where
  "purge_tag_loop [] = None"
| "purge_tag_loop ((name, val) # hs) =
     (if eq_ignore_ascii_case name PURGE_HEADER \<and> val \<noteq> [] then Some val
      else purge_tag_loop hs)"

definition purge_tag :: "request \<Rightarrow> bytes option" where
  "purge_tag r = purge_tag_loop (r_headers_in r)"

section \<open>The report\<close>

record pressure =
  evicted :: u64
  dropped :: u64

definition count :: "bytes \<Rightarrow> usize \<Rightarrow> request \<Rightarrow> request option" where
  "count name n r =
     (case format_usize (replicate 20 0) n of
        None \<Rightarrow> None
      | Some val \<Rightarrow> Some (if utf8_valid val then add_header_out name val r else r))"

definition bind_count :: "bool \<Rightarrow> string \<Rightarrow> usize \<Rightarrow> request option \<Rightarrow> request option" where
  "bind_count b name n ro =
     (case ro of None \<Rightarrow> None | Some r \<Rightarrow> if b then count (bytes_of name) n r else Some r)"

definition report ::
  "bytes \<Rightarrow> usize \<Rightarrow> (usize \<times> usize) option \<Rightarrow> pressure \<Rightarrow> request \<Rightarrow> request option" where
  "report source purged scan pr r =
     (let r0 = add_header_out (bytes_of ''x-purge-source'') source r;
          r1 = bind_count True ''x-purged-count'' purged (Some r0);
          r2 = (case scan of
                  None \<Rightarrow> r1
                | Some (scanned, indexed) \<Rightarrow>
                    bind_count True ''x-indexed-files'' indexed
                      (bind_count True ''x-scanned-files'' scanned r1));
          r3 = bind_count (evicted pr \<noteq> 0) ''x-index-evictions'' (evicted pr) r2
      in bind_count (dropped pr \<noteq> 0) ''x-index-drops'' (dropped pr) r3)"

definition no_content :: "request \<Rightarrow> int \<times> request" where
  "no_content r =
     (let r1 = log_call (SetContentLengthN 0) (log_call (SetStatus HTTP_NO_CONTENT) r);
          (rc, r2) = send_header r1
      in if rc = NGX_ERROR \<or> NGX_OK < rc then (rc, r2) else (NGX_OK, r2))"

section \<open>Removing an entry\<close>

text \<open>
  The name is built in pool memory that holds arbitrary bytes: the directory, room for the
  levels, the hex of the key, a terminating NUL.
\<close>

definition delete_file ::
  "'w os \<Rightarrow> cpath option \<Rightarrow> cache_key \<Rightarrow> 'w \<Rightarrow> (bool \<times> 'w) option" where
  "delete_file S path key w =
     (case path of
        None \<Rightarrow> Some (False, w)
      | Some p \<Rightarrow>
          (let n0 = length (p_name p);
               len = n0 + 1 + p_len p + 2 * CACHE_KEY_LEN;
               hex_at = n0 + 1 + p_len p
           in case pool_alloc S (len + 1) w of
                (None, w1) \<Rightarrow> Some (False, w1)
              | (Some mem, w1) \<Rightarrow>
                  (let name = p_name p @ drop n0 mem;
                       (n, hex) = hex_encode key (take (2 * CACHE_KEY_LEN) (drop hex_at name))
                   in case n of
                        None \<Rightarrow> None
                      | Some _ \<Rightarrow>
                          (let name = take hex_at name @ hex @ drop (hex_at + 2 * CACHE_KEY_LEN) name;
                               name = name[len := 0];
                               name = hashed_filename S p name len;
                               (rc, w2) = os_unlink S (c_string name) w1
                           in Some (rc = 0, w2)))))"

text \<open>The loop over the keys the index gave: the number purged, the cache tree, the files.\<close>

fun purge_keys_loop ::
  "'w os \<Rightarrow> endian \<Rightarrow> cpath option \<Rightarrow> cache_key list \<Rightarrow> usize \<times> cache_tree \<times> 'w \<Rightarrow>
   (usize \<times> cache_tree \<times> 'w) option" where
  "purge_keys_loop S e path [] s = Some s"
| "purge_keys_loop S e path (key # ks) (purged, tree, w) =
     (case invalidate e tree key of
        None \<Rightarrow> None
      | Some (cleared, tree') \<Rightarrow>
          (case delete_file S path key w of
             None \<Rightarrow> None
           | Some (unlinked, w') \<Rightarrow>
               purge_keys_loop S e path ks
                 (if cleared \<or> unlinked then purged + 1 else purged, tree', w')))"

section \<open>The handlers\<close>

definition zone_pressure :: "('a, 'm, 'q) zone \<Rightarrow> pressure" where
  "zone_pressure z =
     (case z_data z of
        None \<Rightarrow> \<lparr>evicted = 0, dropped = 0\<rparr>
      | Some ti \<Rightarrow> \<lparr>evicted = ti_evicted ti, dropped = ti_dropped ti\<rparr>)"

text \<open>
  A handler's result: its return code, the request with the calls made on it, the world.
\<close>

type_synonym ('a, 'm, 'q, 'w) answer = "((int \<times> request) \<times> ('a, 'm, 'q, 'w) world) option"

definition put_site ::
  "zone_id \<Rightarrow> file_cache \<Rightarrow> (('a, 'm, 'q) zone, 'w) site \<Rightarrow> ('a, 'm, 'q, 'w) world \<Rightarrow>
   ('a, 'm, 'q, 'w) world" where
  "put_site i fc st w =
     w\<lparr>w_zone := s_zone st, w_caches := (w_caches w)(i \<mapsto> fc\<lparr>fc_tree := s_tree st\<rparr>),
       w_os := s_os st\<rparr>"

lemma put_site_simps [simp]:
  "w_zone (put_site i fc st w) = s_zone st"
  "w_os (put_site i fc st w) = s_os st"
  "w_caches (put_site i fc st w) = (w_caches w)(i \<mapsto> fc\<lparr>fc_tree := s_tree st\<rparr>)"
  by (simp_all add: put_site_def)

definition fall_back ::
  "('a, 'm, 'q) ngx \<Rightarrow> 'w os \<Rightarrow> endian \<Rightarrow> conf \<Rightarrow> zone_id \<times> file_cache \<Rightarrow> bytes \<Rightarrow> request \<Rightarrow>
   ('a, 'm, 'q, 'w) world \<Rightarrow> ('a, 'm, 'q, 'w) answer" where
  "fall_back N S e conf cache tag r w =
     (case (main_conf conf, location_conf conf) of
        (Some xmcf, Some xlcf) \<Rightarrow>
          if fallback xlcf = 0 then Some ((HTTP_NOT_FOUND, r), w)
          else
            (case pool_alloc S MAX_HEADER_BLOCK (w_os w) of
               (None, w1) \<Rightarrow> Some ((NGX_ERROR, r), w\<lparr>w_os := w1\<rparr>)
             | (Some buf, w1) \<Rightarrow>
                 (let (i, fc) = cache;
                      (found, z) = index_for N conf (w_zone w);
                      index = (found \<and> z_slab z \<noteq> None);
                      s = \<lparr>sc_tag = tag, sc_header = header xmcf, sc_buf = buf, sc_index = index,
                           sc_scanned = 0, sc_purged = 0, sc_indexed = 0\<rparr>
                  in case run N S e (fc_path fc) (s, \<lparr>s_zone = z, s_tree = fc_tree fc, s_os = w1\<rparr>) of
                       None \<Rightarrow> None
                     | Some (rc, s', st) \<Rightarrow>
                         (let w' = put_site i fc st w in
                          if rc = NGX_ERROR then Some ((NGX_ERROR, r), w')
                          else
                            (let scanned = Some (sc_scanned s', sc_indexed s');
                                 pr = (if index then zone_pressure (s_zone st)
                                       else \<lparr>evicted = 0, dropped = 0\<rparr>)
                             in if sc_purged s' = 0
                                then (case report (bytes_of ''scan'') 0 scanned pr r of
                                        None \<Rightarrow> None
                                      | Some r' \<Rightarrow> Some ((HTTP_NOT_FOUND, r'), w'))
                                else (case report (bytes_of ''scan'') (sc_purged s') scanned pr r of
                                        None \<Rightarrow> None
                                      | Some r' \<Rightarrow> Some (no_content r', w'))))))
      | _ \<Rightarrow> Some ((NGX_ERROR, r), w))"

definition purge_handler ::
  "('a, 'm, 'q) ngx \<Rightarrow> 'w os \<Rightarrow> endian \<Rightarrow> conf \<Rightarrow> request \<Rightarrow> ('a, 'm, 'q, 'w) world \<Rightarrow>
   ('a, 'm, 'q, 'w) answer" where
  "purge_handler N S e conf r w =
     (if \<not> is_purge r
      then Some ((HTTP_NOT_ALLOWED, add_header_out (bytes_of ''allow'') (bytes_of ''PURGE'') r), w)
      else
        (let (rc, r1) = discard_request_body r in
         if rc \<noteq> NGX_OK then Some ((rc, r1), w)
         else
        (case Option.bind (purge_tag r1) (\<lambda>tag. if length tag \<le> MAX_TAG_LEN then Some tag else None) of
           None \<Rightarrow> Some ((HTTP_BAD_REQUEST, r1), w)
         | Some tag \<Rightarrow>
        (case location_conf conf of
           None \<Rightarrow> Some ((NGX_ERROR, r1), w)
         | Some xlcf \<Rightarrow>
        (case file_cache (cache_zone xlcf) w of
           None \<Rightarrow> Some ((NGX_ERROR, r1), w)
         | Some (i, fc) \<Rightarrow>
        (case index_for N conf (w_zone w) of
           (False, z) \<Rightarrow> Some ((NGX_ERROR, r1), w\<lparr>w_zone := z\<rparr>)
         | (True, z) \<Rightarrow>
        (case zone_take N tag z of
           None \<Rightarrow> None
         | Some (None, z1) \<Rightarrow> fall_back N S e conf (i, fc) tag r1 (w\<lparr>w_zone := z1\<rparr>)
         | Some (Some keys, z1) \<Rightarrow>
        (case purge_keys_loop S e (fc_path fc) (items keys) (0, fc_tree fc, w_os w) of
           None \<Rightarrow> None
         | Some (purged, tree, w1) \<Rightarrow>
        (case report (bytes_of ''index'') purged None (zone_pressure z1) r1 of
           None \<Rightarrow> None
         | Some r2 \<Rightarrow>
             (let z2 = z1\<lparr>z_slab := map_option (vec_drop N keys) (z_slab z1)\<rparr>
              in Some (no_content r2,
                   put_site i fc \<lparr>s_zone = z2, s_tree = tree, s_os = w1\<rparr> w)))))))))))"

end
