(* ===== verification/Scan_Correct.thy ===== *)
theory Scan_Correct
  imports Scan
begin

text \<open>
  Correctness of the scan. A step on one file is described by \<open>file_step\<close> in terms of the
  files, the live cache keys and the recorded pairs; the walk composes the steps. \<open>site_env\<close>
  joins the container and operating system interfaces, \<open>site_live\<close> is \<open>site_env\<close> where no
  system call fails.
\<close>

section \<open>Names of cache files\<close>

lemma unhex_nibbles: "unhex s = Some bs \<Longrightarrow> c \<in> set s \<Longrightarrow> nibble c \<noteq> None"
  by (induction s arbitrary: bs rule: unhex.induct) (auto split: option.splits)

text \<open>The check for a temporary file is implied by the decoding: a dot is no hex digit.\<close>

lemma key_from_path_eq:
  "key_from_path path =
     (if length path < 32 then None else unhex (drop (length path - 32) path))"
proof (cases "length path < 32")
  case False
  let ?s = "drop (length path - 32) path"
  have dec: "(case hex_decode ?s (replicate 16 0) of (True, key) \<Rightarrow> Some key | (False, key) \<Rightarrow> None) = unhex ?s"
    using False hex_decode_unhex [of ?s "replicate 16 0"]
    by (auto split: option.splits prod.splits bool.splits)
  moreover have "unhex ?s = None" if "path ! (length path - 11) = 46"
  proof (rule ccontr)
    assume "unhex ?s \<noteq> None"
    then obtain bs where bs: "unhex ?s = Some bs" by blast
    have "?s ! 21 = 46" using that False by simp
    then have "(46 :: u8) \<in> set ?s" using False nth_mem [of 21 ?s] by simp
    then have "nibble 46 \<noteq> None" by (rule unhex_nibbles [OF bs])
    then show False by (simp add: nibble_def)
  qed
  ultimately show ?thesis using False by (simp add: key_from_path_def CACHE_KEY_LEN_def Let_def)
qed (simp add: key_from_path_def CACHE_KEY_LEN_def)

lemma key_from_path_ok: "key_from_path path = Some key \<Longrightarrow> key_ok key"
  using unhex_length [of "drop (length path - 32) path" key]
  by (auto simp: key_from_path_eq key_ok_def CACHE_KEY_LEN_def split: if_splits)

lemma key_from_path_hex: "key_ok key \<Longrightarrow> key_from_path (dir @ hex_of key) = Some key"
  by (simp add: key_from_path_eq key_ok_def CACHE_KEY_LEN_def unhex_hex_of)

section \<open>Reading a block\<close>

text \<open>The files' part of an interface that joins containers and operating system.\<close>

locale site_env = ngx_env N ring map_ok + posix S files dirs
  for N :: "('a, 'm, 'q) ngx" and ring map_ok
    and S :: "'w os" and files dirs

locale site_live = site_env N ring map_ok S files dirs + posix_live S files dirs
  for N :: "('a, 'm, 'q) ngx" and ring map_ok
    and S :: "'w os" and files dirs

context posix
begin

lemma read_fd_sound:
  assumes "\<forall>n off b. os_pread S fd n off w = Some b \<longrightarrow> (\<exists>k\<le>n. b = take k (drop off d))"
    and "read_header_block_fd S fd buf w = (r, buf')"
  shows "length buf' = length buf"
    and "r = Some n \<Longrightarrow> stored_block S (length buf) d = Some (take n buf')"
proof -
  have short: "length b \<le> n \<and> (length b = n \<longrightarrow> b = take n (drop off d) \<and> n \<le> length (drop off d))"
    if "os_pread S fd n off w = Some b" for n off b
  proof -
    from that assms(1) obtain k where "k \<le> n" "b = take k (drop off d)" by blast
    then show ?thesis by auto
  qed
  show "length buf' = length buf"
    using assms(2) short
    by (fastforce simp: read_header_block_fd_def Let_def split: option.splits if_splits)
  assume r: "r = Some n"
  obtain hdr b where h: "os_pread S fd (hdr_size S) 0 w = Some hdr" "length hdr = hdr_size S"
      "hdr_version S hdr = cache_version S" "hdr_header_start S hdr < hdr_body_start S hdr"
      "n = hdr_body_start S hdr - hdr_header_start S hdr" "n \<le> length buf"
      "os_pread S fd n (hdr_header_start S hdr) w = Some b" "length b = n" "buf' = b @ drop n buf"
    using assms(2) r
    by (auto simp: read_header_block_fd_def Let_def not_less not_le split: option.splits if_splits)
  have hdr: "hdr = take (hdr_size S) d" using short [OF h(1)] h(2) by simp
  have b: "b = take n (drop (hdr_header_start S hdr) d)"
    "n \<le> length (drop (hdr_header_start S hdr) d)"
    using short [OF h(7)] h(8) by blast+
  have "hdr_body_start S hdr \<le> length d" using b(2) h(4,5) by simp
  then show "stored_block S (length buf) d = Some (take n buf')"
    using h b(1) by (simp add: stored_block_def Let_def flip: hdr)
qed

lemma read_sound:
  assumes "read_header_block S p buf w = ((r, buf'), w')"
  shows "files w' = files w" and "length buf' = length buf"
    and "r = Some n \<Longrightarrow>
      \<exists>d. files w p = Some d \<and> stored_block S (length buf) d = Some (take n buf')"
proof -
  obtain fd w1 where o: "os_open S p w = (fd, w1)" by (metis surj_pair)
  have f1: "files w1 = files w" by (rule open_files [OF o])
  have "files w' = files w \<and> length buf' = length buf
    \<and> (r = Some n \<longrightarrow> (\<exists>d. files w p = Some d \<and> stored_block S (length buf) d = Some (take n buf')))"
  proof (cases "fd < 0")
    case True
    then show ?thesis using assms o f1 by (auto simp: read_header_block_def)
  next
    case False
    then obtain d where d: "files w p = Some d"
      "\<forall>n off b. os_pread S fd n off w1 = Some b \<longrightarrow> (\<exists>k\<le>n. b = take k (drop off d))"
      using pread_open [OF o] by auto
    have "read_header_block_fd S fd buf w1 = (r, buf')" "w' = os_close S fd w1"
      using assms o False by (simp_all add: read_header_block_def)
    then show ?thesis using read_fd_sound [OF d(2)] d(1) f1 close_files by auto
  qed
  then show "files w' = files w" "length buf' = length buf"
    "r = Some n \<Longrightarrow>
      \<exists>d. files w p = Some d \<and> stored_block S (length buf) d = Some (take n buf')"
    by auto
qed

end

context posix_live
begin

lemma read_complete:
  assumes "read_header_block S p buf w = ((None, buf'), w')" "files w p = Some d"
  shows "stored_block S (length buf) d = None"
proof -
  obtain fd w1 where o: "os_open S p w = (fd, w1)" by (metis surj_pair)
  have "\<not> fd < 0" using open_live [OF assms(2) o] by simp
  then have "read_header_block_fd S fd buf w1 = (None, buf')"
    using assms o by (simp add: read_header_block_def)
  then show ?thesis
    using pread_live [OF o assms(2)]
    by (auto simp: read_header_block_fd_def stored_block_def Let_def min_def not_less
        split: if_splits)
qed

end

section \<open>One file\<close>

text \<open>
  What handling one file does, when it was read as the entry \<open>x\<close>: to the files, the live cache
  keys, the recorded pairs, and the number of entries purged.
\<close>

definition file_step ::
  "endian \<Rightarrow> bytes \<Rightarrow> bytes \<Rightarrow> (cache_key \<times> bytes list) option \<Rightarrow> bool \<Rightarrow>
   (bytes \<Rightarrow> bytes option) \<times> nkey set \<times> (bytes \<times> cache_key) set \<Rightarrow>
   (bytes \<Rightarrow> bytes option) \<times> nkey set \<times> (bytes \<times> cache_key) set \<Rightarrow> nat \<Rightarrow> bool" where
  "file_step e tag name x removed a a' n \<longleftrightarrow>
     (let (F, K, P) = a; (F', K', P') = a' in
      case x of
        None \<Rightarrow> F' = F \<and> K' = K \<and> P' = P \<and> n = 0
      | Some (k, ts) \<Rightarrow>
          if tag \<in> set ts
          then F' = (if removed then F(name := None) else F) \<and> K' = K - {nkey_of e k} \<and> P' = P
             \<and> n = of_bool (removed \<or> nkey_of e k \<in> K)
          else F' = F \<and> K' = K \<and> P' \<subseteq> P \<union> set ts \<times> {k} \<and> n = 0)"

text \<open>The fields of the scan that a step keeps, and the count of files.\<close>

definition scan_frame :: "scan \<Rightarrow> scan \<Rightarrow> nat \<Rightarrow> nat \<Rightarrow> bool" where
  "scan_frame sc sc' files purged \<longleftrightarrow>
     sc_tag sc' = sc_tag sc \<and> sc_header sc' = sc_header sc \<and> sc_index sc' = sc_index sc
     \<and> length (sc_buf sc') = length (sc_buf sc)
     \<and> sc_scanned sc' = sc_scanned sc + of_nat files \<and> sc_purged sc' = sc_purged sc + of_nat purged"

lemma scan_frame_trans:
  "scan_frame a b m n \<Longrightarrow> scan_frame b c m' n' \<Longrightarrow> scan_frame a c (m + m') (n + n')"
  by (simp add: scan_frame_def)

definition read_entry ::
  "'w os \<Rightarrow> scan \<Rightarrow> (bytes \<Rightarrow> bytes option) \<Rightarrow> bytes \<Rightarrow> 'w \<Rightarrow> (cache_key \<times> bytes list) option" where
  "read_entry S sc F name w =
     (if fst (fst (read_header_block S name (sc_buf sc) w)) = None then None
      else entry_at S (length (sc_buf sc)) (sc_header sc) F name)"

definition unlink_ok :: "'w os \<Rightarrow> scan \<Rightarrow> bytes \<Rightarrow> 'w \<Rightarrow> bool" where
  "unlink_ok S sc name w =
     (fst (os_unlink S name (snd (read_header_block S name (sc_buf sc) w))) = 0)"

context site_env
begin

text \<open>The abstract state of a site: its files, its live keys, its recorded pairs.\<close>

abbreviation site_rel :: "addr tree \<Rightarrow> (('a, 'm, 'q) zone, 'w) site \<Rightarrow> lru \<Rightarrow> bool" where
  "site_rel t st L \<equiv> zone_rel N ring map_ok (s_zone st) L \<and> cache_ok (s_tree st) t"

abbreviation site_abs ::
  "addr tree \<Rightarrow> (('a, 'm, 'q) zone, 'w) site \<Rightarrow> lru \<Rightarrow>
   (bytes \<Rightarrow> bytes option) \<times> nkey set \<times> (bytes \<times> cache_key) set" where
  "site_abs t st L \<equiv> (files (s_os st), live_keys (s_tree st) t, lru_pairs L)"

lemma on_file_step:
  assumes rel: "site_rel t st L" and name: "0 \<notin> set name"
  shows "\<exists>sc' st' L' n. on_file N S e name (sc, st) = Some (sc', st') \<and> site_rel t st' L'
    \<and> file_step e (sc_tag sc) name (read_entry S sc (files (s_os st)) name (s_os st))
        (unlink_ok S sc name (s_os st)) (site_abs t st L) (site_abs t st' L') n
    \<and> scan_frame sc sc' 1 n"
proof (cases "key_from_path name")
  case None
  then show ?thesis
    using rel by (force simp: on_file_def file_step_def scan_frame_def read_entry_def entry_at_def)
next
  case (Some key)
  let ?F = "files (s_os st)" and ?room = "length (sc_buf sc)" and ?hdr = "sc_header sc"
  have key: "key_ok key" by (rule key_from_path_ok [OF Some])
  obtain r buf w1 where rd: "read_header_block S name (sc_buf sc) (s_os st) = ((r, buf), w1)"
    by (metis surj_pair)
  note rs = read_sound [OF rd]
  let ?sc = "sc\<lparr>sc_scanned := sc_scanned sc + 1, sc_buf := buf\<rparr>" and ?st = "st\<lparr>s_os := w1\<rparr>"
  note ev = on_file_def Some rd c_string_id [OF name]
  show ?thesis
  proof (cases r)
    case None
    then have "on_file N S e name (sc, st) = Some (?sc, ?st)" by (simp add: ev)
    then show ?thesis
      using rel None rs rd by (force simp: file_step_def scan_frame_def read_entry_def)
  next
    case r: (Some n)
    obtain d where d: "?F name = Some d" "stored_block S ?room d = Some (take n buf)"
      using rs(3) [OF r] by blast
    then have entry: "read_entry S sc ?F name (s_os st) =
        map_option (\<lambda>v. (key, split_tags v)) (find_header (take n buf) ?hdr)"
      using Some rd r by (simp add: entry_at_def read_entry_def)
    show ?thesis
    proof (cases "find_header (take n buf) ?hdr")
      case None
      then have "on_file N S e name (sc, st) = Some (?sc, ?st)" using r by (simp add: ev)
      then show ?thesis using rel None rs entry by (force simp: file_step_def scan_frame_def)
    next
      case v: (Some v)
      let ?ts = "split_tags v"
      have entry: "read_entry S sc ?F name (s_os st) = Some (key, ?ts)" using entry v by simp
      show ?thesis
      proof (cases "sc_tag sc \<in> set ?ts")
        case True
        obtain tree where inv: "invalidate e (s_tree st) key = Some (nkey_of e key \<in> live_keys (s_tree st) t, tree)"
          "cache_ok tree t" "live_keys tree t = live_keys (s_tree st) t - {nkey_of e key}"
          using invalidate_ok [OF _ key] rel by blast
        obtain rc w2 where un: "os_unlink S name w1 = (rc, w2)" by (metis surj_pair)
        let ?hit = "nkey_of e key \<in> live_keys (s_tree st) t \<or> rc = 0"
        have "on_file N S e name (sc, st) =
            Some (if ?hit then ?sc\<lparr>sc_purged := sc_purged sc + 1\<rparr> else ?sc,
                  st\<lparr>s_tree := tree, s_os := w2\<rparr>)"
          using r v True by (simp add: ev inv(1) un list_ex_iff)
        moreover have "files w2 = (if rc = 0 then ?F(name := None) else ?F)"
          using unlink_files [OF un] rs(1) by simp
        moreover have "unlink_ok S sc name (s_os st) \<longleftrightarrow> rc = 0" by (simp add: unlink_ok_def rd un)
        ultimately show ?thesis
          using rel inv(2,3) rs(2) entry True
          by (intro exI [of _ "if ?hit then ?sc\<lparr>sc_purged := sc_purged sc + 1\<rparr> else ?sc"]
                exI [of _ "st\<lparr>s_tree := tree, s_os := w2\<rparr>"] exI [of _ L] exI [of _ "of_bool ?hit"])
            (simp add: file_step_def scan_frame_def)
      next
        case False
        then have no: "\<not> list_ex (\<lambda>t. t = sc_tag sc) ?ts" by (auto simp: list_ex_iff)
        show ?thesis
        proof (cases "sc_index sc")
          case idx: True
          obtain wrote z' L' where ins: "insert_each (zone_insert N) key ?ts (s_zone st) = Some (wrote, z')"
            "zone_rel N ring map_ok z' L'" "lru_pairs L' \<subseteq> lru_pairs L \<union> set ?ts \<times> {key}"
            using rel by (metis store.insert_each_pairs)
          have "on_file N S e name (sc, st) =
              Some (if wrote then ?sc\<lparr>sc_indexed := sc_indexed sc + 1\<rparr> else ?sc,
                    ?st\<lparr>s_zone := z'\<rparr>)"
            using r v no idx by (simp add: ev ins(1))
          then show ?thesis
            using rel ins(2,3) rs(1,2) entry False
            by (intro exI [of _ "if wrote then ?sc\<lparr>sc_indexed := sc_indexed sc + 1\<rparr> else ?sc"]
                  exI [of _ "?st\<lparr>s_zone := z'\<rparr>"] exI [of _ L'] exI [of _ 0])
              (simp add: file_step_def scan_frame_def)
        next
          case idx: False
          then have "on_file N S e name (sc, st) = Some (?sc, ?st)" using r v no by (simp add: ev)
          then show ?thesis
            using rel rs entry False
            by (intro exI [of _ ?sc] exI [of _ ?st] exI [of _ L] exI [of _ 0])
              (auto simp: file_step_def scan_frame_def)
        qed
      qed
    qed
  qed
qed

end

section \<open>The walk\<close>

text \<open>The live keys a scan clears and the pairs it writes back, from the entries it meets.\<close>

definition purge_keys ::
  "endian \<Rightarrow> (bytes \<Rightarrow> (cache_key \<times> bytes list) option) \<Rightarrow> bytes \<Rightarrow> bytes list \<Rightarrow> nkey set" where
  "purge_keys e ent tag ns =
     {nkey_of e k | k. \<exists>p ts. p \<in> set ns \<and> ent p = Some (k, ts) \<and> tag \<in> set ts}"

definition kept_pairs ::
  "(bytes \<Rightarrow> (cache_key \<times> bytes list) option) \<Rightarrow> bytes \<Rightarrow> bytes list \<Rightarrow> (bytes \<times> cache_key) set" where
  "kept_pairs ent tag ns =
     {(t, k). \<exists>p ts. p \<in> set ns \<and> ent p = Some (k, ts) \<and> t \<in> set ts \<and> tag \<notin> set ts}"

text \<open>The pairs of tag and key that the files hold.\<close>

definition file_pairs ::
  "'w os \<Rightarrow> bytes \<Rightarrow> (bytes \<Rightarrow> bytes option) \<Rightarrow> (bytes \<times> cache_key) set" where
  "file_pairs S hdr F =
     {(t, k). \<exists>x ts. entry_at S MAX_HEADER_BLOCK hdr F x = Some (k, ts) \<and> t \<in> set ts}"

lemma entry_at_key: "entry_at S room hdr F x = Some (k, ts) \<Longrightarrow> key_from_path x = Some k"
  by (auto simp: entry_at_def split: option.splits)

lemma file_pairs_key: "(t, k) \<in> file_pairs S hdr F \<Longrightarrow> key_ok k"
  by (auto simp: file_pairs_def dest: entry_at_key key_from_path_ok)

definition entry_hit :: "(cache_key \<times> bytes list) option \<Rightarrow> bytes \<Rightarrow> bool" where
  "entry_hit x tag = (case x of None \<Rightarrow> False | Some (k, ts) \<Rightarrow> tag \<in> set ts)"

lemma entry_hit_carries: "entry_hit (entry_at S room hdr F p) tag = carries S room hdr F tag p"
  by (simp add: entry_hit_def carries_def)

text \<open>What a walk may do, whatever calls fail.\<close>

definition scan_sound ::
  "endian \<Rightarrow> (bytes \<Rightarrow> (cache_key \<times> bytes list) option) \<Rightarrow> bytes \<Rightarrow> bytes list \<Rightarrow>
   (bytes \<Rightarrow> bytes option) \<times> nkey set \<times> (bytes \<times> cache_key) set \<Rightarrow>
   (bytes \<Rightarrow> bytes option) \<times> nkey set \<times> (bytes \<times> cache_key) set \<Rightarrow> bool" where
  "scan_sound e ent tag ns a a' \<longleftrightarrow>
     (let (F, K, P) = a; (F', K', P') = a' in
      (\<forall>p. F' p = F p \<or> F' p = None \<and> p \<in> set ns \<and> entry_hit (ent p) tag)
      \<and> K' \<subseteq> K \<and> K \<subseteq> K' \<union> purge_keys e ent tag ns
      \<and> P' \<subseteq> P \<union> kept_pairs ent tag ns)"

text \<open>What it does when none fails.\<close>

definition scan_exact ::
  "endian \<Rightarrow> (bytes \<Rightarrow> (cache_key \<times> bytes list) option) \<Rightarrow> bytes \<Rightarrow> bytes list \<Rightarrow>
   (bytes \<Rightarrow> bytes option) \<times> nkey set \<times> (bytes \<times> cache_key) set \<Rightarrow>
   (bytes \<Rightarrow> bytes option) \<times> nkey set \<times> (bytes \<times> cache_key) set \<Rightarrow> bool" where
  "scan_exact e ent tag ns a a' \<longleftrightarrow>
     (let (F, K, P) = a; (F', K', P') = a' in
      F' = (\<lambda>p. if p \<in> set ns \<and> entry_hit (ent p) tag then None else F p)
      \<and> K' = K - purge_keys e ent tag ns
      \<and> P' \<subseteq> P \<union> kept_pairs ent tag ns)"

lemma purge_keys_Nil [simp]: "purge_keys e ent tag [] = {}"
  by (simp add: purge_keys_def)

lemma kept_pairs_Nil [simp]: "kept_pairs ent tag [] = {}"
  by (simp add: kept_pairs_def)

lemma purge_keys_Cons:
  "purge_keys e ent tag (p # ns) =
     (case ent p of Some (k, ts) \<Rightarrow> if tag \<in> set ts then {nkey_of e k} else {} | None \<Rightarrow> {})
     \<union> purge_keys e ent tag ns"
  by (auto simp: purge_keys_def split: option.split)

lemma kept_pairs_Cons:
  "kept_pairs ent tag (p # ns) =
     (case ent p of Some (k, ts) \<Rightarrow> if tag \<in> set ts then {} else set ts \<times> {k} | None \<Rightarrow> {})
     \<union> kept_pairs ent tag ns"
  by (auto simp: kept_pairs_def split: option.split)

lemma purge_keys_mono:
  "(\<And>p x. p \<in> set ns \<Longrightarrow> ent' p = Some x \<Longrightarrow> ent p = Some x) \<Longrightarrow>
   purge_keys e ent' tag ns \<subseteq> purge_keys e ent tag ns"
  unfolding purge_keys_def by blast

lemma kept_pairs_mono:
  "(\<And>p x. p \<in> set ns \<Longrightarrow> ent' p = Some x \<Longrightarrow> ent p = Some x) \<Longrightarrow>
   kept_pairs ent' tag ns \<subseteq> kept_pairs ent tag ns"
  unfolding kept_pairs_def by blast

lemma entry_at_mono:
  "F' p = F p \<or> F' p = None \<Longrightarrow> entry_at S room hdr F' p = Some x \<Longrightarrow>
   entry_at S room hdr F p = Some x"
  by (auto simp: entry_at_def split: option.splits)

lemma entry_at_cong: "F' p = F p \<Longrightarrow> entry_at S room hdr F' p = entry_at S room hdr F p"
  by (simp add: entry_at_def)

lemma file_step_sound:
  assumes "file_step e tag name x removed a a' n" "x = ent name \<or> x = None"
  shows "scan_sound e ent tag [name] a a'"
  using assms
  by (cases a; cases a')
    (auto simp: file_step_def scan_sound_def entry_hit_def purge_keys_Cons kept_pairs_Cons
      split: option.splits if_splits)

lemma scan_sound_step:
  assumes "scan_sound e (entry_at S room hdr F) tag [name] (F, K, P) (F1, K1, P1)"
    and "scan_sound e (entry_at S room hdr F1) tag ns (F1, K1, P1) a2"
  shows "scan_sound e (entry_at S room hdr F) tag (name # ns) (F, K, P) a2"
proof -
  obtain F2 K2 P2 where a2: "a2 = (F2, K2, P2)" by (cases a2)
  let ?e = "entry_at S room hdr F" and ?e1 = "entry_at S room hdr F1"
  have F1: "F1 p = F p \<or> F1 p = None \<and> p = name \<and> entry_hit (?e p) tag" for p
    using assms(1) by (auto simp: scan_sound_def)
  have up: "?e1 p = Some x \<Longrightarrow> ?e p = Some x" for p x
    using F1 [of p] by (auto intro: entry_at_mono)
  have hit: "entry_hit (?e1 p) tag \<Longrightarrow> entry_hit (?e p) tag" for p
    using up [of p] by (cases "?e1 p") (auto simp: entry_hit_def)
  have keys: "purge_keys e ?e1 tag ns \<subseteq> purge_keys e ?e tag ns"
    by (rule purge_keys_mono) (rule up)
  have pairs: "kept_pairs ?e1 tag ns \<subseteq> kept_pairs ?e tag ns"
    by (rule kept_pairs_mono) (rule up)
  have "F2 p = F p \<or> F2 p = None \<and> p \<in> set (name # ns) \<and> entry_hit (?e p) tag" for p
  proof -
    have "F2 p = F1 p \<or> F2 p = None \<and> p \<in> set ns \<and> entry_hit (?e1 p) tag"
      using assms(2) by (simp add: scan_sound_def a2)
    then show ?thesis using F1 [of p] hit [of p] by auto
  qed
  moreover have "K2 \<subseteq> K" "K \<subseteq> K2 \<union> purge_keys e ?e tag (name # ns)"
    "P2 \<subseteq> P \<union> kept_pairs ?e tag (name # ns)"
    using assms keys pairs
    unfolding scan_sound_def a2 purge_keys_Cons [of e ?e tag name] kept_pairs_Cons [of ?e tag name]
    by auto
  ultimately show ?thesis by (simp add: scan_sound_def a2)
qed

context site_env
begin

lemma walk_files_sound:
  "site_rel t st L \<Longrightarrow> \<forall>x\<in>set ns. 0 \<notin> set x \<Longrightarrow>
   \<exists>sc' st' L' n. walk_files N S e ns (sc, st) = Some (sc', st') \<and> site_rel t st' L'
     \<and> scan_sound e (entry_at S (length (sc_buf sc)) (sc_header sc) (files (s_os st))) (sc_tag sc) ns
         (site_abs t st L) (site_abs t st' L')
     \<and> scan_frame sc sc' (length ns) n"
proof (induction ns arbitrary: sc st L)
  case Nil
  then show ?case
    by (intro exI [of _ sc] exI [of _ st] exI [of _ L] exI [of _ 0])
      (simp add: scan_sound_def scan_frame_def)
next
  case (Cons name ns)
  have names: "0 \<notin> set name" "\<forall>x\<in>set ns. 0 \<notin> set x" using Cons.prems(2) by simp_all
  obtain sc1 st1 L1 n1 where 1: "on_file N S e name (sc, st) = Some (sc1, st1)" "site_rel t st1 L1"
    "file_step e (sc_tag sc) name (read_entry S sc (files (s_os st)) name (s_os st))
        (unlink_ok S sc name (s_os st)) (site_abs t st L) (site_abs t st1 L1) n1"
    "scan_frame sc sc1 1 n1"
    using on_file_step [OF Cons.prems(1) names(1), of e sc]
    by (elim exE conjE) (rule that, assumption, (intro conjI; assumption), assumption+)
  obtain sc2 st2 L2 n2 where 2: "walk_files N S e ns (sc1, st1) = Some (sc2, st2)" "site_rel t st2 L2"
    "scan_sound e (entry_at S (length (sc_buf sc1)) (sc_header sc1) (files (s_os st1))) (sc_tag sc1) ns
         (site_abs t st1 L1) (site_abs t st2 L2)"
    "scan_frame sc1 sc2 (length ns) n2"
    using Cons.IH [OF 1(2) names(2), of sc1]
    by (elim exE conjE) (rule that, assumption, (intro conjI; assumption), assumption+)
  have same: "sc_tag sc1 = sc_tag sc" "sc_header sc1 = sc_header sc"
      "length (sc_buf sc1) = length (sc_buf sc)"
    using 1(4) by (simp_all add: scan_frame_def)
  have "scan_sound e (entry_at S (length (sc_buf sc)) (sc_header sc) (files (s_os st))) (sc_tag sc)
      [name] (site_abs t st L) (site_abs t st1 L1)"
    by (rule file_step_sound [OF 1(3)]) (simp add: read_entry_def)
  from scan_sound_step [OF this 2(3) [unfolded same]]
  have "scan_sound e (entry_at S (length (sc_buf sc)) (sc_header sc) (files (s_os st))) (sc_tag sc)
      (name # ns) (site_abs t st L) (site_abs t st2 L2)" .
  moreover have "scan_frame sc sc2 (length (name # ns)) (n1 + n2)"
    using scan_frame_trans [OF 1(4) 2(4)] by simp
  moreover have "walk_files N S e (name # ns) (sc, st) = Some (sc2, st2)" using 1(1) 2(1) by simp
  ultimately show ?case using 2(2) by blast
qed

end

text \<open>When no call fails, a step does exactly what the entry asks for.\<close>

lemma file_step_exact:
  assumes "file_step e tag name (ent name) removed a a' n"
    and "entry_hit (ent name) tag \<Longrightarrow> removed"
  shows "scan_exact e ent tag [name] a a'" and "n = of_bool (entry_hit (ent name) tag)"
  using assms
  by (cases a; cases a'; cases "ent name";
      force simp: file_step_def scan_exact_def entry_hit_def purge_keys_Cons kept_pairs_Cons
        split: if_splits)+

lemma scan_exact_step:
  assumes "scan_exact e (entry_at S room hdr F) tag [name] (F, K, P) (F1, K1, P1)"
    and "scan_exact e (entry_at S room hdr F1) tag ns (F1, K1, P1) a2"
    and "name \<notin> set ns"
  shows "scan_exact e (entry_at S room hdr F) tag (name # ns) (F, K, P) a2"
    and "\<forall>p\<in>set ns. entry_at S room hdr F1 p = entry_at S room hdr F p"
proof -
  obtain F2 K2 P2 where a2: "a2 = (F2, K2, P2)" by (cases a2)
  let ?e = "entry_at S room hdr F" and ?e1 = "entry_at S room hdr F1"
  have F1: "F1 = (\<lambda>p. if p = name \<and> entry_hit (?e p) tag then None else F p)"
    using assms(1) by (simp add: scan_exact_def)
  show eq: "\<forall>p\<in>set ns. ?e1 p = ?e p"
    using assms(3) F1 by (auto intro!: entry_at_cong)
  have keys: "purge_keys e ?e1 tag ns = purge_keys e ?e tag ns"
    and pairs: "kept_pairs ?e1 tag ns = kept_pairs ?e tag ns"
    using eq unfolding purge_keys_def kept_pairs_def by (metis (no_types, lifting))+
  have F2: "F2 = (\<lambda>p. if p \<in> set ns \<and> entry_hit (?e1 p) tag then None else F1 p)"
    using assms(2) by (simp add: scan_exact_def a2)
  have "F2 = (\<lambda>p. if p \<in> set (name # ns) \<and> entry_hit (?e p) tag then None else F p)"
    unfolding F2 using eq by (auto simp: fun_eq_iff F1)
  moreover have "K2 = K - purge_keys e ?e tag (name # ns)"
    "P2 \<subseteq> P \<union> kept_pairs ?e tag (name # ns)"
    using assms(1,2) keys pairs
    unfolding scan_exact_def a2 purge_keys_Cons [of e ?e tag name] kept_pairs_Cons [of ?e tag name]
    by auto
  ultimately show "scan_exact e ?e tag (name # ns) (F, K, P) a2" by (simp add: scan_exact_def a2)
qed

context site_live
begin

lemma on_file_exact:
  assumes "site_rel t st L" "0 \<notin> set name"
  shows "read_entry S sc (files (s_os st)) name (s_os st) =
      entry_at S (length (sc_buf sc)) (sc_header sc) (files (s_os st)) name"
    and "entry_hit (entry_at S (length (sc_buf sc)) (sc_header sc) (files (s_os st)) name) tag
      \<Longrightarrow> unlink_ok S sc name (s_os st)"
proof -
  let ?F = "files (s_os st)"
  obtain r buf w1 where rd: "read_header_block S name (sc_buf sc) (s_os st) = ((r, buf), w1)"
    by (metis surj_pair)
  show "read_entry S sc ?F name (s_os st) = entry_at S (length (sc_buf sc)) (sc_header sc) ?F name"
    using read_complete [of name "sc_buf sc" "s_os st" buf w1] rd
    by (cases r; cases "?F name") (auto simp: read_entry_def entry_at_def split: option.split)
  assume "entry_hit (entry_at S (length (sc_buf sc)) (sc_header sc) ?F name) tag"
  then have "?F name \<noteq> None" by (auto simp: entry_hit_def entry_at_def split: option.splits)
  then show "unlink_ok S sc name (s_os st)"
    using read_sound(1) [OF rd] unlink_live [of w1 name] rd by (simp add: unlink_ok_def)
qed

lemma walk_files_exact:
  "site_rel t st L \<Longrightarrow> \<forall>x\<in>set ns. 0 \<notin> set x \<Longrightarrow> distinct ns \<Longrightarrow>
   \<exists>sc' st' L'. walk_files N S e ns (sc, st) = Some (sc', st') \<and> site_rel t st' L'
     \<and> scan_exact e (entry_at S (length (sc_buf sc)) (sc_header sc) (files (s_os st))) (sc_tag sc) ns
         (site_abs t st L) (site_abs t st' L')
     \<and> scan_frame sc sc' (length ns) (length (filter
         (carries S (length (sc_buf sc)) (sc_header sc) (files (s_os st)) (sc_tag sc)) ns))"
proof (induction ns arbitrary: sc st L)
  case Nil
  then show ?case
    by (intro exI [of _ sc] exI [of _ st] exI [of _ L])
      (simp add: scan_exact_def scan_frame_def)
next
  case (Cons name ns)
  let ?e = "\<lambda>F. entry_at S (length (sc_buf sc)) (sc_header sc) F"
  have names: "0 \<notin> set name" "\<forall>x\<in>set ns. 0 \<notin> set x" "distinct ns" "name \<notin> set ns"
    using Cons.prems(2,3) by simp_all
  note ex = on_file_exact [OF Cons.prems(1) names(1), of sc]
  obtain sc1 st1 L1 n1 where 1: "on_file N S e name (sc, st) = Some (sc1, st1)" "site_rel t st1 L1"
    "file_step e (sc_tag sc) name (?e (files (s_os st)) name)
        (unlink_ok S sc name (s_os st)) (site_abs t st L) (site_abs t st1 L1) n1"
    "scan_frame sc sc1 1 n1"
    using on_file_step [OF Cons.prems(1) names(1), of e sc] unfolding ex(1)
    by (elim exE conjE) (rule that, assumption, (intro conjI; assumption), assumption+)
  have same: "sc_tag sc1 = sc_tag sc" "sc_header sc1 = sc_header sc"
      "length (sc_buf sc1) = length (sc_buf sc)"
    using 1(4) by (simp_all add: scan_frame_def)
  note step = file_step_exact [where ent = "?e (files (s_os st))", OF 1(3) ex(2) [of "sc_tag sc"]]
  obtain sc2 st2 L2 where 2: "walk_files N S e ns (sc1, st1) = Some (sc2, st2)" "site_rel t st2 L2"
    "scan_exact e (?e (files (s_os st1))) (sc_tag sc) ns (site_abs t st1 L1) (site_abs t st2 L2)"
    "scan_frame sc1 sc2 (length ns) (length (filter
         (carries S (length (sc_buf sc)) (sc_header sc) (files (s_os st1)) (sc_tag sc)) ns))"
    using Cons.IH [OF 1(2) names(2,3), of sc1] unfolding same
    by (elim exE conjE) (rule that, assumption, (intro conjI; assumption), assumption+)
  note st = scan_exact_step [OF step(1) 2(3) names(4)]
  have "filter (carries S (length (sc_buf sc)) (sc_header sc) (files (s_os st1)) (sc_tag sc)) ns =
      filter (carries S (length (sc_buf sc)) (sc_header sc) (files (s_os st)) (sc_tag sc)) ns"
    using st(2) by (intro filter_cong) (simp_all flip: entry_hit_carries)
  then have "scan_frame sc sc2 (length (name # ns)) (length (filter
      (carries S (length (sc_buf sc)) (sc_header sc) (files (s_os st)) (sc_tag sc)) (name # ns)))"
    using scan_frame_trans [OF 1(4) 2(4)] step(2) by (auto simp: entry_hit_carries)
  moreover have "walk_files N S e (name # ns) (sc, st) = Some (sc2, st2)" using 1(1) 2(1) by simp
  ultimately show ?case using 2(2) st(1) by blast
qed

end

end
