(* ===== verification/Purge_Correct.thy ===== *)
theory Purge_Correct
  imports Purge Scan_Correct
begin

text \<open>
  Correctness of the purge handler. The report and the answer are computed in closed form; the
  loop over the index's keys clears exactly their cache nodes and removes exactly their files.
  The final lemmas describe the handler on each of its paths.
\<close>

section \<open>The answer\<close>

definition count_calls :: "bool \<Rightarrow> string \<Rightarrow> usize \<Rightarrow> call list" where
  "count_calls b name n = (if b then [AddHeaderOut (bytes_of name) (decimal (unat n))] else [])"

definition report_calls ::
  "bytes \<Rightarrow> usize \<Rightarrow> (usize \<times> usize) option \<Rightarrow> pressure \<Rightarrow> call list" where
  "report_calls source purged scan pr =
     [AddHeaderOut (bytes_of ''x-purge-source'') source]
     @ count_calls True ''x-purged-count'' purged
     @ (case scan of
          None \<Rightarrow> []
        | Some (scanned, indexed) \<Rightarrow>
            count_calls True ''x-scanned-files'' scanned @ count_calls True ''x-indexed-files'' indexed)
     @ count_calls (evicted pr \<noteq> 0) ''x-index-evictions'' (evicted pr)
     @ count_calls (dropped pr \<noteq> 0) ''x-index-drops'' (dropped pr)"

definition no_content_calls :: "call list" where
  "no_content_calls = [SetStatus HTTP_NO_CONTENT, SetContentLengthN 0, SendHeader]"

definition send_result :: "request \<Rightarrow> int" where
  "send_result r =
     (if r_send_rc r = NGX_ERROR \<or> NGX_OK < r_send_rc r then r_send_rc r else NGX_OK)"

definition log_calls :: "call list \<Rightarrow> request \<Rightarrow> request" where
  "log_calls xs r = r\<lparr>r_calls := r_calls r @ xs\<rparr>"

lemma log_calls_simps [simp]:
  "log_calls [] r = r"
  "log_call x r = log_calls [x] r"
  "log_calls ys (log_calls xs r) = log_calls (xs @ ys) r"
  "r_send_rc (log_calls xs r) = r_send_rc r"
  "r_headers_in (log_calls xs r) = r_headers_in r"
  "r_calls (log_calls xs r) = r_calls r @ xs"
  by (simp_all add: log_calls_def log_call_def)

lemma decimal_utf8: "utf8_valid (decimal n)"
proof (rule utf8_valid_ascii, rule ballI)
  fix c assume "c \<in> set (decimal n)"
  then have "c \<le> 57" using decimal_digits by blast
  then show "c < 128" by (rule order.strict_trans1) simp
qed

lemma count_eq: "count name n r = Some (log_calls [AddHeaderOut name (decimal (unat n))] r)"
  by (simp add: count_def format_usize_decimal decimal_utf8 add_header_out_def)

lemma bind_count_eq: "bind_count b name n (Some r) = Some (log_calls (count_calls b name n) r)"
  by (simp add: bind_count_def count_eq count_calls_def)

lemma report_eq: "report source purged scan pr r = Some (log_calls (report_calls source purged scan pr) r)"
  by (simp add: report_def report_calls_def bind_count_eq add_header_out_def split: option.split)

lemma no_content_eq: "no_content r = (send_result r, log_calls no_content_calls r)"
  by (simp add: no_content_def send_result_def no_content_calls_def send_header_def)

section \<open>Removing the files of keys\<close>

text \<open>The path NGINX stores a key's entry under.\<close>

definition cache_file :: "(cpath \<Rightarrow> bytes \<Rightarrow> bytes) \<Rightarrow> cpath \<Rightarrow> cache_key \<Rightarrow> bytes" where
  "cache_file dirs p key = p_name p @ dirs p (hex_of key) @ hex_of key"

lemma key_from_cache_file: "key_ok key \<Longrightarrow> key_from_path (cache_file dirs p key) = Some key"
  using key_from_path_hex [of key "p_name p @ dirs p (hex_of key)"] by (simp add: cache_file_def)

lemma cache_file_inj:
  "key_ok a \<Longrightarrow> key_ok b \<Longrightarrow> cache_file dirs p a = cache_file dirs p b \<Longrightarrow> a = b"
  by (metis key_from_cache_file option.inject)

lemma HEX_no_NUL: "0 \<notin> set HEX"
  by (simp add: HEX_def)

lemma hex_of_no_NUL: "0 \<notin> set (hex_of bs)"
proof -
  have "HEX ! unat n \<noteq> 0" if "n < 16" for n :: u8
    using nibble_HEX [OF that] by (auto simp: nibble_def)
  then show ?thesis by (induction bs) (auto simp: hex_pair_def nibbles_lt dest: sym)
qed

context posix
begin

lemma delete_file_ok:
  assumes key: "key_ok key" and p: "0 \<notin> set (p_name p)"
  shows "\<exists>b w'. delete_file S (Some p) key w = Some (b, w')
    \<and> (if b then files w (cache_file dirs p key) \<noteq> None
          \<and> files w' = (files w)(cache_file dirs p key := None)
        else files w' = files w)
    \<and> (\<forall>m w1. pool_alloc S (length (p_name p) + 1 + p_len p + 2 * CACHE_KEY_LEN + 1) w = (Some m, w1) \<longrightarrow>
        b = (fst (os_unlink S (cache_file dirs p key) w1) = 0))"
proof -
  let ?n0 = "length (p_name p)" and ?h = "hex_of key"
  let ?len = "?n0 + 1 + p_len p + 2 * CACHE_KEY_LEN" and ?at = "?n0 + 1 + p_len p"
  have lh: "length ?h = 2 * CACHE_KEY_LEN" using key by (simp add: key_ok_def)
  obtain m w1 where al: "pool_alloc S (?len + 1) w = (m, w1)" by (metis surj_pair)
  have f1: "files w1 = files w" by (rule alloc_files [OF al])
  show ?thesis
  proof (cases m)
    case None
    then show ?thesis
      using al f1 by (intro exI [of _ False] exI [of _ w1]) (simp add: delete_file_def Let_def)
  next
    case (Some mem)
    have lm: "length mem = ?len + 1" by (rule alloc_length) (use al Some in simp)
    let ?name = "p_name p @ drop ?n0 mem"
    let ?gap = "take (1 + p_len p) (drop ?n0 mem)"
    have hex: "hex_encode key (take (2 * CACHE_KEY_LEN) (drop ?at ?name)) = (Some (2 * length key), ?h)"
      using key lm by (simp add: hex_encode_eq key_ok_def)
    have t: "take ?at ?name = p_name p @ ?gap" by (simp add: take_append)
    obtain c where c: "drop (?at + 2 * CACHE_KEY_LEN) ?name = [c]"
    proof -
      have "length (drop (?at + 2 * CACHE_KEY_LEN) ?name) = Suc 0" using lm by simp
      then obtain c xs where "drop (?at + 2 * CACHE_KEY_LEN) ?name = c # xs" "length xs = 0"
        unfolding length_Suc_conv by blast
      then show thesis using that by simp
    qed
    have lg: "length ?gap = 1 + p_len p" using lm by simp
    have upd: "(take ?at ?name @ ?h @ drop (?at + 2 * CACHE_KEY_LEN) ?name)[?len := 0]
        = p_name p @ ?gap @ ?h @ [0]"
      unfolding t c using lg lh by (simp add: list_update_append)
    have name: "c_string (hashed_filename S p (p_name p @ ?gap @ ?h @ [0]) ?len) = cache_file dirs p key"
      using hashed_levels [OF lg lh refl] dirs_ok [OF lh hex_of_no_NUL, of p] p hex_of_no_NUL [of key]
        c_string_NUL [of "p_name p @ dirs p ?h @ ?h" "[]"]
      by (simp add: cache_file_def)
    obtain rc w2 where un: "os_unlink S (cache_file dirs p key) w1 = (rc, w2)" by (metis surj_pair)
    have "delete_file S (Some p) key w = Some (rc = 0, w2)"
      unfolding delete_file_def Let_def option.case al Some prod.case hex upd name un by simp
    then show ?thesis using unlink_files [OF un] f1 al Some un by (simp split: if_splits)
  qed
qed

text \<open>
  The loop clears exactly the live nodes of its keys, and removes files of its keys only.
\<close>

lemma purge_keys_loop_sound:
  "cache_ok tree t \<Longrightarrow> \<forall>k\<in>set ks. key_ok k \<Longrightarrow> 0 \<notin> set (p_name p) \<Longrightarrow>
   \<exists>n tree' w'. purge_keys_loop S e (Some p) ks (n0, tree, w) = Some (n, tree', w')
     \<and> cache_ok tree' t \<and> live_keys tree' t = live_keys tree t - nkey_of e ` set ks
     \<and> (\<forall>x. files w' x = files w x \<or> files w' x = None \<and> x \<in> cache_file dirs p ` set ks)"
proof (induction ks arbitrary: n0 tree w)
  case (Cons k ks)
  have k: "key_ok k" "\<forall>k\<in>set ks. key_ok k" using Cons.prems(2) by simp_all
  obtain tree1 where 1: "invalidate e tree k = Some (nkey_of e k \<in> live_keys tree t, tree1)"
    "cache_ok tree1 t" "live_keys tree1 t = live_keys tree t - {nkey_of e k}"
    using invalidate_ok [OF Cons.prems(1) k(1)] by blast
  obtain b w1 where 2: "delete_file S (Some p) k w = Some (b, w1)"
    "if b then files w (cache_file dirs p k) \<noteq> None
          \<and> files w1 = (files w)(cache_file dirs p k := None) else files w1 = files w"
    using delete_file_ok [OF k(1) Cons.prems(3)] by blast
  let ?n = "if nkey_of e k \<in> live_keys tree t \<or> b then n0 + 1 else n0"
  obtain n tree' w' where 3: "purge_keys_loop S e (Some p) ks (?n, tree1, w1) = Some (n, tree', w')"
    "cache_ok tree' t" "live_keys tree' t = live_keys tree1 t - nkey_of e ` set ks"
    "\<forall>x. files w' x = files w1 x \<or> files w' x = None \<and> x \<in> cache_file dirs p ` set ks"
    using Cons.IH [OF 1(2) k(2) Cons.prems(3)] by blast
  have "purge_keys_loop S e (Some p) (k # ks) (n0, tree, w) = Some (n, tree', w')"
    using 1(1) 2(1) 3(1) by simp
  moreover have "live_keys tree' t = live_keys tree t - nkey_of e ` set (k # ks)"
    using 1(3) 3(3) by auto
  moreover have "files w' x = files w x \<or> files w' x = None \<and> x \<in> cache_file dirs p ` set (k # ks)" for x
    using 2(2) 3(4) by (cases "x = cache_file dirs p k") (auto split: if_splits)
  ultimately show ?case using 3(2) by blast
qed simp

end

context posix_live
begin

lemma delete_file_live:
  assumes "key_ok key" "0 \<notin> set (p_name p)"
  shows "\<exists>w'. delete_file S (Some p) key w = Some (files w (cache_file dirs p key) \<noteq> None, w')
    \<and> files w' = (files w)(cache_file dirs p key := None)"
proof -
  let ?c = "cache_file dirs p key" and ?n = "length (p_name p) + 1 + p_len p + 2 * CACHE_KEY_LEN + 1"
  obtain b w' where d: "delete_file S (Some p) key w = Some (b, w')"
    "if b then files w ?c \<noteq> None \<and> files w' = (files w)(?c := None) else files w' = files w"
    "\<forall>m w1. pool_alloc S ?n w = (Some m, w1) \<longrightarrow> b = (fst (os_unlink S ?c w1) = 0)"
    using delete_file_ok [OF assms] by blast
  obtain m w1 where al: "pool_alloc S ?n w = (Some m, w1)"
    using alloc_live [of ?n w] by (cases "pool_alloc S ?n w") auto
  then have "b \<longleftrightarrow> files w ?c \<noteq> None"
    using d alloc_files [OF al] unlink_live [of w1 ?c] by (cases "files w ?c") (auto split: if_splits)
  then show ?thesis using d(1,2) by (cases "files w ?c") (simp_all add: fun_upd_idem)
qed

text \<open>The number purged: the keys with a live node or a file.\<close>

lemma purge_keys_loop_exact:
  "cache_ok tree t \<Longrightarrow> \<forall>k\<in>set ks. key_ok k \<Longrightarrow> 0 \<notin> set (p_name p) \<Longrightarrow> distinct ks \<Longrightarrow>
   \<exists>tree' w'. purge_keys_loop S e (Some p) ks (n0, tree, w) =
       Some (n0 + of_nat (length (filter (\<lambda>k. nkey_of e k \<in> live_keys tree t
               \<or> files w (cache_file dirs p k) \<noteq> None) ks)), tree', w')
     \<and> cache_ok tree' t \<and> live_keys tree' t = live_keys tree t - nkey_of e ` set ks
     \<and> files w' = (\<lambda>x. if x \<in> cache_file dirs p ` set ks then None else files w x)"
proof (induction ks arbitrary: n0 tree w)
  case (Cons k ks)
  have k: "key_ok k" "\<forall>k\<in>set ks. key_ok k" "distinct ks" "k \<notin> set ks"
    using Cons.prems(2,4) by simp_all
  obtain tree1 where 1: "invalidate e tree k = Some (nkey_of e k \<in> live_keys tree t, tree1)"
    "cache_ok tree1 t" "live_keys tree1 t = live_keys tree t - {nkey_of e k}"
    using invalidate_ok [OF Cons.prems(1) k(1)] by blast
  obtain w1 where 2: "delete_file S (Some p) k w = Some (files w (cache_file dirs p k) \<noteq> None, w1)"
    "files w1 = (files w)(cache_file dirs p k := None)"
    using delete_file_live [OF k(1) Cons.prems(3)] by blast
  let ?P = "\<lambda>tree w k. nkey_of e k \<in> live_keys tree t \<or> files w (cache_file dirs p k) \<noteq> None"
  let ?n = "if ?P tree w k then n0 + 1 else n0"
  have "?P tree1 w1 k' = ?P tree w k'" if "k' \<in> set ks" for k'
  proof -
    have "k' \<noteq> k" "key_ok k'" using that k by auto
    then have "nkey_of e k' \<noteq> nkey_of e k" "cache_file dirs p k' \<noteq> cache_file dirs p k"
      using nkey_of_inj cache_file_inj k(1) by blast+
    then show ?thesis by (simp add: 1(3) 2(2))
  qed
  then have same: "filter (?P tree1 w1) ks = filter (?P tree w) ks" by (intro filter_cong) simp_all
  obtain tree' w' where 3: "purge_keys_loop S e (Some p) ks (?n, tree1, w1) =
      Some (?n + of_nat (length (filter (?P tree w) ks)), tree', w')"
    "cache_ok tree' t" "live_keys tree' t = live_keys tree1 t - nkey_of e ` set ks"
    "files w' = (\<lambda>x. if x \<in> cache_file dirs p ` set ks then None else files w1 x)"
    using Cons.IH [OF 1(2) k(2) Cons.prems(3) k(3), of ?n w1] unfolding same by blast
  have "purge_keys_loop S e (Some p) (k # ks) (n0, tree, w) =
      Some (n0 + of_nat (length (filter (?P tree w) (k # ks))), tree', w')"
    using 1(1) 2(1) 3(1) by (simp split: if_splits)
  moreover have "live_keys tree' t = live_keys tree t - nkey_of e ` set (k # ks)"
    using 1(3) 3(3) by auto
  moreover have "files w' = (\<lambda>x. if x \<in> cache_file dirs p ` set (k # ks) then None else files w x)"
    by (auto simp: 3(4) 2(2) fun_eq_iff)
  ultimately show ?case using 3(2) by blast
qed simp

end

end
