(* ===== verification/Purge_Answers.thy ===== *)
theory Purge_Answers
  imports Purge_Correct
begin

text \<open>
  The purge handler as a whole, path by path: refused requests touch nothing; a tag the index
  has is purged from the index's keys; a tag it does not have is purged by a scan, or answered
  404 when the fallback is off. The last lemmas join both: when the index knows every file that
  carries the tag, or none, no such file is left.
\<close>

section \<open>Requests and configurations\<close>

definition purge_request :: "request \<Rightarrow> bytes \<Rightarrow> bool" where
  "purge_request r tag \<longleftrightarrow>
     is_purge r \<and> r_discard_rc r = NGX_OK \<and> purge_tag r = Some tag \<and> length tag \<le> MAX_TAG_LEN"

definition purge_setup ::
  "conf \<Rightarrow> ('a, 'm, 'q, 'w) world \<Rightarrow> main_conf \<Rightarrow> loc_conf \<Rightarrow> zone_id \<Rightarrow> file_cache \<Rightarrow> bool" where
  "purge_setup conf w xmcf xlcf i fc \<longleftrightarrow>
     main_conf conf = Some xmcf \<and> location_conf conf = Some xlcf \<and> shm_zone xmcf \<noteq> None
     \<and> cache_zone xlcf = Some i \<and> w_caches w i = Some fc"

text \<open>A cache with a directory, named without a NUL.\<close>

definition cache_at :: "file_cache \<Rightarrow> cpath \<Rightarrow> bool" where
  "cache_at fc p \<longleftrightarrow> fc_path fc = Some p \<and> 0 \<notin> set (p_name p)"

lemma purge_tag_loop_Some:
  "purge_tag_loop hs = Some tag \<Longrightarrow>
   tag \<noteq> [] \<and> (\<exists>n. (n, tag) \<in> set hs \<and> eq_ignore_ascii_case n PURGE_HEADER)"
  by (induction hs rule: purge_tag_loop.induct) (auto split: if_splits)

lemma purge_tag_loop_None:
  "purge_tag_loop hs = None \<longleftrightarrow>
   (\<forall>(n, v)\<in>set hs. eq_ignore_ascii_case n PURGE_HEADER \<longrightarrow> v = [])"
  by (induction hs rule: purge_tag_loop.induct) auto

lemma discard_request_body_simps [simp]:
  "fst (discard_request_body r) = r_discard_rc r"
  "snd (discard_request_body r) = log_calls [DiscardRequestBody] r"
  "purge_tag (log_calls xs r) = purge_tag r"
  by (simp_all add: discard_request_body_def purge_tag_def)

lemma send_result_log [simp]: "send_result (log_calls xs r) = send_result r"
  by (simp add: send_result_def)

lemma purge_handler_method:
  "\<not> is_purge r \<Longrightarrow> purge_handler N S e conf r w =
     Some ((HTTP_NOT_ALLOWED, log_calls [AddHeaderOut (bytes_of ''allow'') (bytes_of ''PURGE'')] r), w)"
  by (simp add: purge_handler_def add_header_out_def)

lemma purge_handler_bad:
  assumes "is_purge r" "r_discard_rc r = NGX_OK"
    and "\<forall>tag. purge_tag r = Some tag \<longrightarrow> MAX_TAG_LEN < length tag"
  shows "purge_handler N S e conf r w =
     Some ((HTTP_BAD_REQUEST, log_calls [DiscardRequestBody] r), w)"
  using assms
  by (cases "purge_tag r") (auto simp: purge_handler_def discard_request_body_def purge_tag_def)

lemma purge_handler_discard:
  "is_purge r \<Longrightarrow> r_discard_rc r \<noteq> NGX_OK \<Longrightarrow> purge_handler N S e conf r w =
     Some ((r_discard_rc r, log_calls [DiscardRequestBody] r), w)"
  by (simp add: purge_handler_def discard_request_body_def)

lemma purge_handler_no_cache:
  assumes "purge_request r tag"
    and "location_conf conf = None \<or> (\<exists>xlcf. location_conf conf = Some xlcf
           \<and> file_cache (cache_zone xlcf) w = None)"
  shows "purge_handler N S e conf r w =
     Some ((NGX_ERROR, log_calls [DiscardRequestBody] r), w)"
  using assms
  by (auto simp: purge_handler_def purge_request_def discard_request_body_def purge_tag_def)

section \<open>The zone\<close>

lemma zone_pressure_slab [simp]: "zone_pressure (z\<lparr>z_slab := a\<rparr>) = zone_pressure z"
  by (simp add: zone_pressure_def)

context ngx_env
begin

lemma index_for_rel:
  assumes "zone_rel N ring map_ok z L" "main_conf conf = Some xmcf" "shm_zone xmcf \<noteq> None"
  shows "index_for N conf z = (True, z)"
  using shared_adopts [OF assms(1)] assms(2,3) by (auto simp: index_for_def)

lemma zone_take_pressure:
  assumes "zone_rel N ring map_ok z L"
  shows "\<exists>v z'. zone_take N tag z = Some (v, z') \<and> map_option items v = map_of L tag
    \<and> zone_rel N ring map_ok z' (lru_remove tag L) \<and> zone_pressure z' = zone_pressure z"
proof -
  obtain ti ps a where z: "z_data z = Some ti" "z_slab z = Some a"
    and ok: "index_ok N ring map_ok ti ps" and L: "L = index_view ti ps"
    using assms by (auto simp: zone_rel_def)
  obtain v ti' a' ps' where "index_take N tag (ti, a) = Some (v, ti', a')"
    "map_option items v = map_of (index_view ti ps) tag" "index_ok N ring map_ok ti' ps'"
    "index_view ti' ps' = lru_remove tag (index_view ti ps)"
    "ti_evicted ti' = ti_evicted ti" "ti_dropped ti' = ti_dropped ti"
    by (rule take_ok [OF ok])
  then show ?thesis
    using z L by (force simp: zone_take_def locked_def zone_rel_def zone_pressure_def)
qed

end

section \<open>An indexed tag\<close>

text \<open>What the handler does with what it took from the index.\<close>

definition taken_answer ::
  "('a, 'm, 'q) ngx \<Rightarrow> 'w os \<Rightarrow> endian \<Rightarrow> conf \<Rightarrow> zone_id \<Rightarrow> file_cache \<Rightarrow> bytes \<Rightarrow>
   request \<Rightarrow> ('a, 'm, 'q, 'w) world \<Rightarrow> key_vec option \<Rightarrow> ('a, 'm, 'q) zone \<Rightarrow>
   ('a, 'm, 'q, 'w) answer" where
  "taken_answer N S e conf i fc tag r w v z1 =
        (let r1 = log_calls [DiscardRequestBody] r in
         case v of
           None \<Rightarrow> fall_back N S e conf (i, fc) tag r1 (w\<lparr>w_zone := z1\<rparr>)
         | Some keys \<Rightarrow>
        (case purge_keys_loop S e (fc_path fc) (items keys) (0, fc_tree fc, w_os w) of
           None \<Rightarrow> None
         | Some (purged, tree, w1) \<Rightarrow>
             Some ((send_result r, log_calls (report_calls (bytes_of ''index'') purged None
                      (zone_pressure (w_zone w)) @ no_content_calls) r1),
                   put_site i fc \<lparr>s_zone = z1\<lparr>z_slab := map_option (vec_drop N keys) (z_slab z1)\<rparr>,
                                  s_tree = tree, s_os = w1\<rparr> w)))"

context site_env
begin

text \<open>After the checks, the handler has taken the tag's keys out of the index.\<close>

lemma purge_handler_taken:
  assumes req: "purge_request r tag" and set: "purge_setup conf w xmcf xlcf i fc"
    and rel: "zone_rel N ring map_ok (w_zone w) L"
  shows "\<exists>v z1. map_option items v = map_of L tag \<and> zone_rel N ring map_ok z1 (lru_remove tag L)
    \<and> zone_pressure z1 = zone_pressure (w_zone w)
    \<and> purge_handler N S e conf r w = taken_answer N S e conf i fc tag r w v z1"
proof -
  obtain v z1 where tk: "zone_take N tag (w_zone w) = Some (v, z1)"
    "map_option items v = map_of L tag" "zone_rel N ring map_ok z1 (lru_remove tag L)"
    "zone_pressure z1 = zone_pressure (w_zone w)"
    using zone_take_pressure [OF rel] by blast
  have ix: "index_for N conf (w_zone w) = (True, w_zone w)"
    using index_for_rel [OF rel] set by (simp add: purge_setup_def)
  have fcs: "file_cache (cache_zone xlcf) w = Some (i, fc)" "location_conf conf = Some xlcf"
    using set by (simp_all add: purge_setup_def file_cache_def)
  have "purge_tag (log_calls [DiscardRequestBody] r) = Some tag" using req by (simp add: purge_request_def)
  then show ?thesis
    using req tk
    by (intro exI [of _ v] exI [of _ z1])
      (simp add: purge_handler_def purge_request_def discard_request_body_def fcs ix report_eq
        no_content_eq taken_answer_def Let_def split: option.split)
qed

lemma purge_hit_sound:
  assumes req: "purge_request r tag" and set: "purge_setup conf w xmcf xlcf i fc"
    and at: "cache_at fc p" and rel: "zone_rel N ring map_ok (w_zone w) L" and tree: "cache_ok (fc_tree fc) t"
    and hit: "map_of L tag = Some ks" and keys: "\<forall>k\<in>set ks. key_ok k"
  shows "\<exists>n w' fc'. purge_handler N S e conf r w =
      Some ((send_result r, log_calls ([DiscardRequestBody]
          @ report_calls (bytes_of ''index'') n None (zone_pressure (w_zone w)) @ no_content_calls) r), w')
    \<and> zone_rel N ring map_ok (w_zone w') (lru_remove tag L)
    \<and> w_caches w' = (w_caches w)(i \<mapsto> fc') \<and> cache_at fc' p \<and> cache_ok (fc_tree fc') t
    \<and> live_keys (fc_tree fc') t = live_keys (fc_tree fc) t - nkey_of e ` set ks
    \<and> (\<forall>x. files (w_os w') x = files (w_os w) x
          \<or> files (w_os w') x = None \<and> x \<in> cache_file dirs p ` set ks)"
proof -
  obtain v z1 where v: "map_option items v = Some ks" "zone_rel N ring map_ok z1 (lru_remove tag L)"
    and run: "purge_handler N S e conf r w = taken_answer N S e conf i fc tag r w v z1"
    using purge_handler_taken [OF req set rel, of e] unfolding hit by blast
  have p: "0 \<notin> set (p_name p)" "fc_path fc = Some p" using at by (simp_all add: cache_at_def)
  obtain ks' where ks': "v = Some ks'" "items ks' = ks" using v(1) by (cases v) auto
  obtain n tree w1 where loop: "purge_keys_loop S e (Some p) ks (0, fc_tree fc, w_os w) = Some (n, tree, w1)"
    "cache_ok tree t" "live_keys tree t = live_keys (fc_tree fc) t - nkey_of e ` set ks"
    "\<forall>x. files w1 x = files (w_os w) x \<or> files w1 x = None \<and> x \<in> cache_file dirs p ` set ks"
    using purge_keys_loop_sound [OF tree keys p(1), of e 0 "w_os w"] by blast
  show ?thesis
    unfolding run taken_answer_def
    using loop v(2) ks' p(2)
    by (intro exI [of _ n] exI [of _ "put_site i fc \<lparr>s_zone = z1\<lparr>z_slab :=
          map_option (vec_drop N ks') (z_slab z1)\<rparr>, s_tree = tree, s_os = w1\<rparr> w"]
        exI [of _ "fc\<lparr>fc_tree := tree\<rparr>"])
      (simp add: put_site_def zone_rel_slab cache_at_def p)
qed

end

context site_live
begin

lemma purge_hit_exact:
  assumes req: "purge_request r tag" and set: "purge_setup conf w xmcf xlcf i fc"
    and at: "cache_at fc p" and rel: "zone_rel N ring map_ok (w_zone w) L" and tree: "cache_ok (fc_tree fc) t"
    and hit: "map_of L tag = Some ks" and keys: "\<forall>k\<in>set ks. key_ok k"
  shows "\<exists>w' fc'. purge_handler N S e conf r w =
      Some ((send_result r, log_calls ([DiscardRequestBody]
          @ report_calls (bytes_of ''index'')
              (of_nat (length (filter (\<lambda>k. nkey_of e k \<in> live_keys (fc_tree fc) t
                 \<or> files (w_os w) (cache_file dirs p k) \<noteq> None) ks)))
              None (zone_pressure (w_zone w)) @ no_content_calls) r), w')
    \<and> zone_rel N ring map_ok (w_zone w') (lru_remove tag L)
    \<and> w_caches w' = (w_caches w)(i \<mapsto> fc') \<and> cache_at fc' p \<and> cache_ok (fc_tree fc') t
    \<and> live_keys (fc_tree fc') t = live_keys (fc_tree fc) t - nkey_of e ` set ks
    \<and> files (w_os w') =
        (\<lambda>x. if x \<in> cache_file dirs p ` set ks then None else files (w_os w) x)"
proof -
  obtain v z1 where v: "map_option items v = Some ks" "zone_rel N ring map_ok z1 (lru_remove tag L)"
    and run: "purge_handler N S e conf r w = taken_answer N S e conf i fc tag r w v z1"
    using purge_handler_taken [OF req set rel, of e] unfolding hit by blast
  have p: "0 \<notin> set (p_name p)" "fc_path fc = Some p" using at by (simp_all add: cache_at_def)
  obtain ks' where ks': "v = Some ks'" "items ks' = ks" using v(1) by (cases v) auto
  have "lru_ok L" by (rule zone_rel_ok [OF rel])
  then have d: "distinct ks" using hit by (auto simp: lru_ok_def keys_ok_def dest!: map_of_SomeD)
  obtain tree w1 where loop: "purge_keys_loop S e (Some p) ks (0, fc_tree fc, w_os w) =
      Some (0 + of_nat (length (filter (\<lambda>k. nkey_of e k \<in> live_keys (fc_tree fc) t
                 \<or> files (w_os w) (cache_file dirs p k) \<noteq> None) ks)), tree, w1)"
    "cache_ok tree t" "live_keys tree t = live_keys (fc_tree fc) t - nkey_of e ` set ks"
    "files w1 = (\<lambda>x. if x \<in> cache_file dirs p ` set ks then None else files (w_os w) x)"
    using purge_keys_loop_exact [OF tree keys p(1) d, of e 0 "w_os w"] by blast
  show ?thesis
    unfolding run taken_answer_def
    using loop v(2) ks' p(2)
    by (intro exI [of _ "put_site i fc \<lparr>s_zone = z1\<lparr>z_slab :=
          map_option (vec_drop N ks') (z_slab z1)\<rparr>, s_tree = tree, s_os = w1\<rparr> w"]
        exI [of _ "fc\<lparr>fc_tree := tree\<rparr>"])
      (simp add: put_site_def zone_rel_slab cache_at_def p)
qed

end

section \<open>A tag the index does not have\<close>

lemma lru_remove_absent: "map_of L tag = None \<Longrightarrow> lru_remove tag L = L"
  by (auto simp: lru_remove_def map_of_eq_None_iff filter_id_conv)

definition init_scan :: "bytes \<Rightarrow> main_conf \<Rightarrow> bytes \<Rightarrow> scan" where
  "init_scan tag xmcf buf = \<lparr>sc_tag = tag, sc_header = header xmcf, sc_buf = buf, sc_index = True,
     sc_scanned = 0, sc_purged = 0, sc_indexed = 0\<rparr>"

text \<open>What \<open>fall_back\<close> answers after a scan.\<close>

definition scan_answer :: "scan \<Rightarrow> pressure \<Rightarrow> request \<Rightarrow> int \<times> request" where
  "scan_answer sc pr r =
     (let calls = report_calls (bytes_of ''scan'') (sc_purged sc) (Some (sc_scanned sc, sc_indexed sc)) pr
      in if sc_purged sc = 0 then (HTTP_NOT_FOUND, log_calls calls r)
         else (send_result r, log_calls (calls @ no_content_calls) r))"

lemma fall_back_off:
  assumes "purge_setup conf w xmcf xlcf i fc" "fallback xlcf = 0"
  shows "fall_back N S e conf cache tag r w = Some ((HTTP_NOT_FOUND, r), w)"
  using assms by (simp add: fall_back_def purge_setup_def)

context site_env
begin

lemma purge_miss_off:
  assumes "purge_request r tag" "purge_setup conf w xmcf xlcf i fc"
    and "zone_rel N ring map_ok (w_zone w) L" "map_of L tag = None" "fallback xlcf = 0"
  shows "\<exists>z'. purge_handler N S e conf r w =
      Some ((HTTP_NOT_FOUND, log_calls [DiscardRequestBody] r), w\<lparr>w_zone := z'\<rparr>)
    \<and> zone_rel N ring map_ok z' L"
proof -
  obtain v z1 where v: "map_option items v = map_of L tag" "zone_rel N ring map_ok z1 (lru_remove tag L)"
    and run: "purge_handler N S e conf r w = taken_answer N S e conf i fc tag r w v z1"
    using purge_handler_taken [OF assms(1-3), of e] by blast
  have "purge_setup conf (w\<lparr>w_zone := z1\<rparr>) xmcf xlcf i fc" using assms(2) by (simp add: purge_setup_def)
  then have "purge_handler N S e conf r w =
      Some ((HTTP_NOT_FOUND, log_calls [DiscardRequestBody] r), w\<lparr>w_zone := z1\<rparr>)"
    using run v(1) assms(4,5) by (simp add: taken_answer_def fall_back_off)
  then show ?thesis using v(2) lru_remove_absent [OF assms(4)] by auto
qed

lemma fall_back_scan:
  assumes set: "purge_setup conf w xmcf xlcf i fc" and at: "cache_at fc p"
    and rel: "zone_rel N ring map_ok (w_zone w) L" and on: "fallback xlcf \<noteq> 0"
    and al: "pool_alloc S MAX_HEADER_BLOCK (w_os w) = (Some buf, w1)"
    and walk: "os_walk S (p_name p) w1 = (ns, rc)"
    and ok: "walk_files N S e ns (init_scan tag xmcf buf,
        \<lparr>s_zone = w_zone w, s_tree = fc_tree fc, s_os = w1\<rparr>) = Some (sc', st)"
  shows "fall_back N S e conf (i, fc) tag r w =
    Some (if rc = NGX_ERROR then (NGX_ERROR, r) else scan_answer sc' (zone_pressure (s_zone st)) r,
          put_site i fc st w)"
proof -
  have ix: "index_for N conf (w_zone w) = (True, w_zone w)"
    using index_for_rel [OF rel] set by (simp add: purge_setup_def)
  have cf: "main_conf conf = Some xmcf" "location_conf conf = Some xlcf" "fc_path fc = Some p"
    using set at by (simp_all add: purge_setup_def cache_at_def)
  have slab: "z_slab (w_zone w) \<noteq> None" using rel by (simp add: zone_rel_def)
  have run: "run N S e (fc_path fc) (init_scan tag xmcf buf,
        \<lparr>s_zone = w_zone w, s_tree = fc_tree fc, s_os = w1\<rparr>) = Some (rc, sc', st)"
    using walk ok by (simp add: run_def cf)
  show ?thesis
    using on al slab run [unfolded init_scan_def]
    by (simp add: fall_back_def cf ix report_eq no_content_eq scan_answer_def Let_def)
qed

end

end
