(* ===== verification/Purge_Complete.thy ===== *)
theory Purge_Complete
  imports Purge_Answers
begin

text \<open>
  Completeness of a purge. A scan removes every file that carries the tag; so does the index
  when it knows all of them (\<open>index_covers\<close>), and only then: an answer from the index leaves
  the files it does not know.
\<close>

context site_live
begin

text \<open>How a purge of a tag the index does not have comes to its walk, and from there to its answer.\<close>

lemma purge_scan_run:
  assumes req: "purge_request r tag" and set: "purge_setup conf w xmcf xlcf i fc"
    and at: "cache_at fc p" and rel: "zone_rel N ring map_ok (w_zone w) L"
    and miss: "map_of L tag = None" and on: "fallback xlcf \<noteq> 0"
  obtains ns buf z1 w1 where "distinct ns" "\<forall>x\<in>set ns. 0 \<notin> set x"
    and "\<forall>x. files (w_os w) x \<noteq> None \<longrightarrow> in_dir (p_name p) x \<longrightarrow> x \<in> set ns"
    and "length buf = MAX_HEADER_BLOCK" "zone_rel N ring map_ok z1 L" "files w1 = files (w_os w)"
    and "\<And>sc st. walk_files N S e ns (init_scan tag xmcf buf,
          \<lparr>s_zone = z1, s_tree = fc_tree fc, s_os = w1\<rparr>) = Some (sc, st) \<Longrightarrow>
        purge_handler N S e conf r w =
          Some (scan_answer sc (zone_pressure (s_zone st)) (log_calls [DiscardRequestBody] r),
                put_site i fc st w)"
proof -
  obtain v z1 where v: "map_option items v = None" "zone_rel N ring map_ok z1 (lru_remove tag L)"
    and run: "purge_handler N S e conf r w = taken_answer N S e conf i fc tag r w v z1"
    using purge_handler_taken [OF req set rel, of e] unfolding miss by blast
  have rel1: "zone_rel N ring map_ok z1 L" using v(2) lru_remove_absent [OF miss] by simp
  obtain buf w1 where al: "pool_alloc S MAX_HEADER_BLOCK (w_os w) = (Some buf, w1)"
    using alloc_live [of MAX_HEADER_BLOCK "w_os w"]
    by (cases "pool_alloc S MAX_HEADER_BLOCK (w_os w)") auto
  have f1: "files w1 = files (w_os w)" by (rule alloc_files [OF al])
  obtain ns rc where walk: "os_walk S (p_name p) w1 = (ns, rc)" by (metis surj_pair)
  have ns: "\<forall>x\<in>set ns. 0 \<notin> set x" "distinct ns" "rc = NGX_OK"
    "\<forall>x. files (w_os w) x \<noteq> None \<longrightarrow> in_dir (p_name p) x \<longrightarrow> x \<in> set ns"
    using walk_names [of _ "p_name p" w1] walk_distinct [of "p_name p" w1] walk_rc [of "p_name p" w1]
      walk_live [of w1 _ "p_name p"] walk f1 by auto
  let ?w = "w\<lparr>w_zone := z1\<rparr>"
  have set': "purge_setup conf ?w xmcf xlcf i fc" using set by (simp add: purge_setup_def)
  have ans: "purge_handler N S e conf r w =
      Some (scan_answer sc (zone_pressure (s_zone st)) (log_calls [DiscardRequestBody] r),
            put_site i fc st w)"
    if "walk_files N S e ns (init_scan tag xmcf buf,
          \<lparr>s_zone = z1, s_tree = fc_tree fc, s_os = w1\<rparr>) = Some (sc, st)" for sc st
  proof -
    have "fall_back N S e conf (i, fc) tag (log_calls [DiscardRequestBody] r) ?w =
        Some (if rc = NGX_ERROR then (NGX_ERROR, log_calls [DiscardRequestBody] r)
              else scan_answer sc (zone_pressure (s_zone st)) (log_calls [DiscardRequestBody] r),
              put_site i fc st ?w)"
      by (rule fall_back_scan [OF set' at _ on _ walk]) (use rel1 al that in simp_all)
    then show ?thesis
      using run v(1) ns(3) by (simp add: taken_answer_def put_site_def NGX_OK_def NGX_ERROR_def)
  qed
  show thesis by (rule that [OF ns(2,1,4) alloc_length rel1 f1 ans]) (use al in auto)
qed

lemma purge_scan_exact:
  assumes req: "purge_request r tag" and set: "purge_setup conf w xmcf xlcf i fc"
    and at: "cache_at fc p" and rel: "zone_rel N ring map_ok (w_zone w) L"
    and tree: "cache_ok (fc_tree fc) t"
    and miss: "map_of L tag = None" and on: "fallback xlcf \<noteq> 0"
  shows "\<exists>ns sc w' fc' L'. distinct ns
    \<and> (\<forall>x. files (w_os w) x \<noteq> None \<longrightarrow> in_dir (p_name p) x \<longrightarrow> x \<in> set ns)
    \<and> purge_handler N S e conf r w =
        Some (scan_answer sc (zone_pressure (w_zone w')) (log_calls [DiscardRequestBody] r), w')
    \<and> sc_scanned sc = of_nat (length ns)
    \<and> sc_purged sc = of_nat (length (filter
         (carries S MAX_HEADER_BLOCK (header xmcf) (files (w_os w)) tag) ns))
    \<and> zone_rel N ring map_ok (w_zone w') L'
    \<and> w_caches w' = (w_caches w)(i \<mapsto> fc') \<and> cache_at fc' p \<and> cache_ok (fc_tree fc') t
    \<and> scan_exact e (entry_at S MAX_HEADER_BLOCK (header xmcf) (files (w_os w))) tag ns
        (files (w_os w), live_keys (fc_tree fc) t, lru_pairs L)
        (files (w_os w'), live_keys (fc_tree fc') t, lru_pairs L')"
proof -
  obtain ns buf z1 w1 where ns: "distinct ns" "\<forall>x\<in>set ns. 0 \<notin> set x"
    "\<forall>x. files (w_os w) x \<noteq> None \<longrightarrow> in_dir (p_name p) x \<longrightarrow> x \<in> set ns"
    and st0: "length buf = MAX_HEADER_BLOCK" "zone_rel N ring map_ok z1 L" "files w1 = files (w_os w)"
    and run: "\<And>sc st. walk_files N S e ns (init_scan tag xmcf buf,
          \<lparr>s_zone = z1, s_tree = fc_tree fc, s_os = w1\<rparr>) = Some (sc, st) \<Longrightarrow>
        purge_handler N S e conf r w =
          Some (scan_answer sc (zone_pressure (s_zone st)) (log_calls [DiscardRequestBody] r),
                put_site i fc st w)"
    using purge_scan_run [OF req set at rel miss on] by metis
  let ?s = "init_scan tag xmcf buf"
  let ?st = "\<lparr>s_zone = z1, s_tree = fc_tree fc, s_os = w1\<rparr>"
  obtain sc st L' where scan: "walk_files N S e ns (?s, ?st) = Some (sc, st)"
    "zone_rel N ring map_ok (s_zone st) L' \<and> cache_ok (s_tree st) t"
    "scan_exact e (entry_at S (length (sc_buf ?s)) (sc_header ?s) (files (s_os ?st))) (sc_tag ?s) ns
       (files (s_os ?st), live_keys (s_tree ?st) t, lru_pairs L)
       (files (s_os st), live_keys (s_tree st) t, lru_pairs L')"
    "scan_frame ?s sc (length ns) (length (filter
       (carries S (length (sc_buf ?s)) (sc_header ?s) (files (s_os ?st)) (sc_tag ?s)) ns))"
    using walk_files_exact [of ?st L t ns e ?s, OF _ ns(2,1)] st0(2) tree by auto
  show ?thesis
    using ns(1,3) scan(2-4) at st0 run [OF scan(1)]
    by (intro exI [of _ ns] exI [of _ sc] exI [of _ "put_site i fc st w"]
        exI [of _ "fc\<lparr>fc_tree := s_tree st\<rparr>"] exI [of _ L'])
      (simp add: put_site_def cache_at_def scan_frame_def init_scan_def)
qed

end

section \<open>No file left\<close>

text \<open>The index knows every file in the cache directory that carries the tag.\<close>

definition index_covers ::
  "'w os \<Rightarrow> (cpath \<Rightarrow> bytes \<Rightarrow> bytes) \<Rightarrow> bytes \<Rightarrow> cpath \<Rightarrow> (bytes \<Rightarrow> bytes option) \<Rightarrow> bytes \<Rightarrow> lru \<Rightarrow> bool" where
  "index_covers S dirs hdr p F tag L \<longleftrightarrow>
     (\<forall>x. in_dir (p_name p) x \<longrightarrow> carries S MAX_HEADER_BLOCK hdr F tag x \<longrightarrow>
        (\<exists>k. (tag, k) \<in> lru_pairs L \<and> x = cache_file dirs p k))"

definition purged_clean ::
  "'w os \<Rightarrow> bytes \<Rightarrow> cpath \<Rightarrow> (bytes \<Rightarrow> bytes option) \<Rightarrow> bytes \<Rightarrow> bool" where
  "purged_clean S hdr p F tag \<longleftrightarrow>
     (\<forall>x. in_dir (p_name p) x \<longrightarrow> \<not> carries S MAX_HEADER_BLOCK hdr F tag x)"

lemma carries_file: "carries S room hdr F tag x \<Longrightarrow> F x \<noteq> None"
  by (auto simp: carries_def entry_at_def split: option.splits)

lemma carries_cong: "F' x = F x \<Longrightarrow> carries S room hdr F' tag x = carries S room hdr F tag x"
  by (simp add: carries_def entry_at_def)

context site_live
begin

lemma purge_complete:
  assumes req: "purge_request r tag" and set: "purge_setup conf w xmcf xlcf i fc"
    and at: "cache_at fc p" and rel: "zone_rel N ring map_ok (w_zone w) L"
    and tree: "cache_ok (fc_tree fc) t" and on: "fallback xlcf \<noteq> 0"
    and keys: "\<forall>(t, k)\<in>lru_pairs L. key_ok k"
    and cover: "map_of L tag = None \<or> index_covers S dirs (header xmcf) p (files (w_os w)) tag L"
  shows "\<exists>ans w'. purge_handler N S e conf r w = Some (ans, w')
    \<and> purged_clean S (header xmcf) p (files (w_os w')) tag"
proof (cases "map_of L tag")
  case None
  let ?F = "files (w_os w)"
  obtain ns sc w' and fc' :: file_cache and L' where res: "\<forall>x. ?F x \<noteq> None \<longrightarrow> in_dir (p_name p) x \<longrightarrow> x \<in> set ns"
    "purge_handler N S e conf r w =
        Some (scan_answer sc (zone_pressure (w_zone w')) (log_calls [DiscardRequestBody] r), w')"
    "scan_exact e (entry_at S MAX_HEADER_BLOCK (header xmcf) ?F) tag ns
        (?F, live_keys (fc_tree fc) t, lru_pairs L)
        (files (w_os w'), live_keys (fc_tree fc') t, lru_pairs L')"
    using purge_scan_exact [OF req set at rel tree None on, of e]
    by (elim exE conjE) (rule that; assumption)
  have F': "files (w_os w') =
      (\<lambda>x. if x \<in> set ns \<and> carries S MAX_HEADER_BLOCK (header xmcf) ?F tag x then None else ?F x)"
    using res(3) by (simp add: scan_exact_def entry_hit_carries)
  have "\<not> carries S MAX_HEADER_BLOCK (header xmcf) (files (w_os w')) tag x" if u: "in_dir (p_name p) x" for x
  proof
    assume c: "carries S MAX_HEADER_BLOCK (header xmcf) (files (w_os w')) tag x"
    then have f: "files (w_os w') x = ?F x" "?F x \<noteq> None"
      using carries_file [OF c] unfolding F' by (auto split: if_splits)
    then have "x \<in> set ns" "carries S MAX_HEADER_BLOCK (header xmcf) ?F tag x"
      using res(1) u c carries_cong [where F' = "files (w_os w')" and F = ?F and x = x, OF f(1)] by blast+
    then show False using f F' by simp
  qed
  then show ?thesis using res(2) unfolding purged_clean_def by blast
next
  case (Some ks)
  let ?F = "files (w_os w)"
  have pairs: "(tag, k) \<in> lru_pairs L \<longleftrightarrow> k \<in> set ks" for k using Some by (simp add: lru_pairs_iff)
  then have ks: "\<forall>k\<in>set ks. key_ok k" using keys by blast
  obtain ans w' where res: "purge_handler N S e conf r w = Some (ans, w')"
    "files (w_os w') = (\<lambda>x. if x \<in> cache_file dirs p ` set ks then None else ?F x)"
    using purge_hit_exact [OF req set at rel tree Some ks, of e] by blast
  have "\<not> carries S MAX_HEADER_BLOCK (header xmcf) (files (w_os w')) tag x" if u: "in_dir (p_name p) x" for x
  proof
    assume c: "carries S MAX_HEADER_BLOCK (header xmcf) (files (w_os w')) tag x"
    then have f: "x \<notin> cache_file dirs p ` set ks" "files (w_os w') x = ?F x"
      using carries_file [OF c] unfolding res(2) by (auto split: if_splits)
    then have "carries S MAX_HEADER_BLOCK (header xmcf) ?F tag x" using c carries_cong [where F' = "files (w_os w')" and F = ?F and x = x, OF f(2)] by blast
    then show False using cover u f(1) pairs Some by (auto simp: index_covers_def)
  qed
  then show ?thesis using res(1) unfolding purged_clean_def by blast
qed

text \<open>
  A file the index does not know survives when the index answers, whatever it carries.
\<close>

lemma purge_hit_leaves:
  assumes req: "purge_request r tag" and set: "purge_setup conf w xmcf xlcf i fc"
    and at: "cache_at fc p" and rel: "zone_rel N ring map_ok (w_zone w) L"
    and tree: "cache_ok (fc_tree fc) t"
    and hit: "map_of L tag = Some ks" and keys: "\<forall>k\<in>set ks. key_ok k"
    and unknown: "x \<notin> cache_file dirs p ` set ks"
  shows "\<exists>ans w'. purge_handler N S e conf r w = Some (ans, w') \<and> files (w_os w') x = files (w_os w) x"
  using purge_hit_exact [OF req set at rel tree hit keys, of e] unknown by auto

end

section \<open>Recorded, then purged\<close>

lemma recorded_view:
  assumes "ngx_room N ring map_ok" "zone_rel N ring map_ok z L" "\<forall>(t, k)\<in>lru_pairs L. key_ok k"
    and "response_tags conf r = Some (key, tags)" "key_ok key" "tag \<in> set tags" "tag_accepted tag"
  obtains z' ks where "record_response N conf r z = Some z'"
    "zone_rel N ring map_ok z' (lru_record_all key tags L)"
    "map_of (lru_record_all key tags L) tag = Some ks" "key \<in> set ks" "\<forall>k\<in>set ks. key_ok k"
    "\<forall>(t, k)\<in>lru_pairs (lru_record_all key tags L). key_ok k"
proof -
  let ?L = "lru_record_all key tags L"
  have L: "lru_ok L" by (rule ngx_env.zone_rel_ok [OF ngx_room.axioms(1) [OF assms(1)] assms(2)])
  obtain z' where rec: "record_response N conf r z = Some z'" "zone_rel N ring map_ok z' ?L"
    using ngx_room.record_response_room [OF assms(1,2,4)] by blast
  have ok: "\<forall>(t, k)\<in>lru_pairs ?L. key_ok k"
    using lru_record_all_pairs [OF L, of key tags] assms(3,5) by auto
  obtain ks where ks: "map_of ?L tag = Some ks" "key \<in> set ks"
    using lru_record_all_mem [OF L assms(6,7)] by blast
  then have "\<forall>k\<in>set ks. key_ok k" using ok by (auto simp: lru_pairs_def)
  then show thesis using that rec ks ok by blast
qed

lemma recorded_then_purged:
  assumes "site_live N ring map_ok S files dirs" "ngx_room N ring map_ok"
    and "zone_rel N ring map_ok (w_zone w) L" "\<forall>(t, k)\<in>lru_pairs L. key_ok k"
    and "response_tags conf0 r0 = Some (key, tags)" "key_ok key" "tag \<in> set tags" "tag_accepted tag"
    and "purge_request r tag" "purge_setup conf w xmcf xlcf i fc" "cache_at fc p"
    and "cache_ok (fc_tree fc) t"
  shows "\<exists>z' rc r' w' fc'. record_response N conf0 r0 (w_zone w) = Some z'
    \<and> purge_handler N S e conf r (w\<lparr>w_zone := z'\<rparr>) = Some ((rc, r'), w')
    \<and> AddHeaderOut (bytes_of ''x-purge-source'') (bytes_of ''index'') \<in> set (r_calls r')
    \<and> files (w_os w') (cache_file dirs p key) = None
    \<and> w_caches w' i = Some fc' \<and> nkey_of e key \<notin> live_keys (fc_tree fc') t"
proof -
  obtain z' ks where rec: "record_response N conf0 r0 (w_zone w) = Some z'"
    "zone_rel N ring map_ok z' (lru_record_all key tags L)"
    "map_of (lru_record_all key tags L) tag = Some ks" "key \<in> set ks" "\<forall>k\<in>set ks. key_ok k"
    by (rule recorded_view [OF assms(2-8)])
  have set: "purge_setup conf (w\<lparr>w_zone := z'\<rparr>) xmcf xlcf i fc" using assms(10) by (simp add: purge_setup_def)
  have rel: "zone_rel N ring map_ok (w_zone (w\<lparr>w_zone := z'\<rparr>)) (lru_record_all key tags L)"
    using rec(2) by simp
  show ?thesis
    using rec(1,4)
      site_live.purge_hit_exact [OF assms(1,9) set assms(11) rel assms(12) rec(3,5), of e]
    by (fastforce simp: report_calls_def)
qed

end
