(* ===== verification/Reference_World.thy ===== *)
theory Reference_World
  imports Purge_Complete
begin

text \<open>
  A concrete server for the witnesses: an index zone with room, one cache with one live entry
  whose file carries the tag \<open>news\<close>, and requests that record and purge it. The interpretation
  shows that all interfaces of the development hold together.
\<close>

interpretation live: site_live ref_room dll_ring ref_map_ok disk_os disk_files disk_dirs
  by (intro site_live.intro site_env.intro ngx_room.axioms(1) [OF ref_room_env]
      posix_live.axioms(1) [OF disk_posix] disk_posix)

section \<open>Keys, tags, zones\<close>

definition demo_key :: "u8 \<Rightarrow> cache_key" where
  "demo_key n = replicate 15 0 @ [n]"

definition demo_tag :: bytes where
  "demo_tag = bytes_of ''news''"

definition demo_zone :: "(cells, ref_map, dll) zone" where
  "demo_zone = ref_zone 0"

definition tagged_zone :: "(cells, ref_map, dll) zone" where
  "tagged_zone = (case zone_insert ref_room demo_tag (demo_key 1) demo_zone of
     Some (r, z) \<Rightarrow> z | None \<Rightarrow> demo_zone)"

lemma demo_key_ok [simp]: "key_ok (demo_key n)"
  by (simp add: demo_key_def key_ok_def CACHE_KEY_LEN_def)

lemma demo_tag_ok: "demo_tag \<noteq> []" "length demo_tag \<le> MAX_TAG_LEN"
  by (simp_all add: demo_tag_def MAX_TAG_LEN_def)

text \<open>The zone is what the first lookup makes of a pool with no index.\<close>

definition blank_zone :: "(cells, ref_map, dll) zone" where
  "blank_zone = \<lparr>z_slab = Some (Suc 0), z_data = None, z_log_nomem = True\<rparr>"

lemma demo_shared: "\<exists>ti. shared ref_room blank_zone = (Inr ti, demo_zone)"
proof -
  have "map_try_new ref_room = map_try_new ref_ngx" "queue_zeroed ref_room = queue_zeroed ref_ngx"
    "queue_init ref_room = queue_init ref_ngx" "alloc_shared ref_room = alloc_shared ref_ngx"
    "map_drop ref_room = map_drop ref_ngx"
    by (simp_all add: ref_room_def)
  then have "shared ref_room blank_zone = shared ref_ngx blank_zone" by (simp only: shared_def)
  then show ?thesis
    by (simp add: demo_zone_def ref_zone_def blank_zone_def shared_def ref_ngx_def take_cells_def Let_def)
qed

lemma demo_zone_rel: "zone_rel ref_room dll_ring ref_map_ok demo_zone []"
  using demo_shared room.shared_fresh [of blank_zone] by (auto simp: blank_zone_def)

lemma tagged_zone_rel: "zone_rel ref_room dll_ring ref_map_ok tagged_zone [(demo_tag, [demo_key 1])]"
proof -
  obtain z where "zone_insert ref_room demo_tag (demo_key 1) demo_zone = Some (Inr (), z)"
    "zone_rel ref_room dll_ring ref_map_ok z
       (lru_record demo_tag (demo_key 1) (lru_touch demo_tag []))"
    using room.zone_insert_room [OF demo_zone_rel demo_tag_ok] by blast
  then show ?thesis by (simp add: tagged_zone_def lru_record_def lru_touch_def)
qed

section \<open>The cache\<close>

definition demo_path :: cpath where
  "demo_path = \<lparr>p_name = bytes_of ''/c'', p_len = 2, p_level = [1]\<rparr>"

definition demo_node :: cache_node where
  "demo_node = \<lparr>n_key = node_key Little (demo_key 1), n_left = 0, n_right = 0,
     f_key = node_key_rest (demo_key 1), f_exists = True, f_fs_size = 8\<rparr>"

definition demo_tree :: cache_tree where
  "demo_tree = \<lparr>c_root = 1, c_sentinel = 0, c_nodes = [1 \<mapsto> demo_node], c_size = 8\<rparr>"

definition demo_cache :: file_cache where
  "demo_cache = \<lparr>fc_path = Some demo_path, fc_tree = demo_tree\<rparr>"

lemma demo_tree_ok: "cache_ok demo_tree (Node Leaf 1 Leaf)"
proof -
  have "length (node_key_rest (demo_key 1)) = 8" by simp
  then show ?thesis
    by (simp add: cache_ok_def demo_tree_def demo_node_def node_size_def CACHE_KEY_LEN_def
        USIZE_BYTES_def)
qed

lemma demo_tree_live: "live_keys demo_tree (Node Leaf 1 Leaf) = {nkey_of Little (demo_key 1)}"
  by (auto simp: live_keys_def demo_tree_def demo_node_def node_live_def node_nkey_def nkey_of_def)

text \<open>A cache file: the header NGINX writes, then the response's header block.\<close>

definition demo_block :: bytes where
  "demo_block = header_block (bytes_of ''HTTP/1.1 200 OK'') [(bytes_of ''Xkey'', demo_tag)]"

definition demo_content :: bytes where
  "demo_content = [5, 0, 5, 0, 5 + of_nat (length demo_block)] @ demo_block @ bytes_of ''body''"

definition demo_file :: bytes where
  "demo_file = cache_file disk_dirs demo_path (demo_key 1)"

definition demo_disk :: disk where
  "demo_disk = \<lparr>dk_files = [(demo_file, demo_content)], dk_open = []\<rparr>"

lemma demo_path_ok: "cache_at demo_cache demo_path"
  by (simp add: cache_at_def demo_cache_def demo_path_def)

lemma length_demo_block: "length demo_block = 31"
  by (simp add: demo_block_def header_block_def header_line_def demo_tag_def)

lemma demo_block_tags:
  "map_option split_tags (find_header demo_block (bytes_of ''xkey'')) = Some [demo_tag]"
proof -
  have "find_header demo_block (bytes_of ''xkey'') =
      map_option trim (header_lookup (bytes_of ''xkey'') [(bytes_of ''Xkey'', demo_tag)])"
    unfolding demo_block_def
    by (rule find_header_block)
      (simp_all add: header_ok_def field_name_def demo_tag_def is_ascii_whitespace_def)
  also have "\<dots> = Some demo_tag"
  proof -
    have "trim demo_tag = demo_tag"
      by (rule trim_id) (simp add: demo_tag_def is_ascii_whitespace_def)
    then show ?thesis by (simp add: eq_ignore_ascii_case_def to_ascii_lowercase_def)
  qed
  finally show ?thesis
    by (simp add: split_tags_def demo_tag_def is_tag_separator_def)
qed

lemma demo_stored: "stored_block disk_os MAX_HEADER_BLOCK demo_content = Some demo_block"
  by (simp add: stored_block_def demo_content_def disk_os_def be16_def length_demo_block
      MAX_HEADER_BLOCK_def Let_def)

lemma demo_file_key: "key_from_path demo_file = Some (demo_key 1)"
  by (simp add: demo_file_def key_from_cache_file)

lemma demo_entry:
  assumes "F demo_file = Some demo_content"
  shows "entry_at disk_os MAX_HEADER_BLOCK (bytes_of ''xkey'') F demo_file = Some (demo_key 1, [demo_tag])"
  using demo_block_tags assms by (auto simp: entry_at_def demo_file_key demo_stored)

lemma demo_file_in_dir: "in_dir (p_name demo_path) demo_file"
proof -
  have "demo_file = bytes_of ''/c/'' @ drop 3 demo_file"
    by (simp add: demo_file_def cache_file_def demo_path_def disk_dirs_def)
  moreover have "0 \<notin> set demo_file"
    using disk.dirs_ok [of "hex_of (demo_key 1)" demo_path] hex_of_no_NUL [of "demo_key 1"]
    by (simp add: demo_file_def cache_file_def demo_path_def demo_key_def CACHE_KEY_LEN_def)
  ultimately show ?thesis
    by (simp add: in_dir_def demo_path_def) (metis append_Cons append_Nil take_Suc_Cons take0)
qed

section \<open>Configuration, world, requests\<close>

definition demo_main :: main_conf where
  "demo_main = \<lparr>shm_zone = Some 0, header = bytes_of ''xkey''\<rparr>"

definition demo_loc :: loc_conf where
  "demo_loc = \<lparr>cache_zone = Some 1, fallback = 1\<rparr>"

definition demo_conf :: conf where
  "demo_conf = \<lparr>main_conf = Some demo_main, location_conf = Some demo_loc\<rparr>"

definition demo_world :: "(cells, ref_map, dll) zone \<Rightarrow> (cells, ref_map, dll, disk) world" where
  "demo_world z = \<lparr>w_zone = z, w_caches = [1 \<mapsto> demo_cache], w_os = demo_disk\<rparr>"

definition demo_request :: request where
  "demo_request =
     \<lparr>r_method_name = bytes_of ''PURGE'', r_method = OTHER,
      r_headers_in = [(bytes_of ''Host'', bytes_of ''a''), (bytes_of ''Xkey-Purge'', demo_tag)],
      r_headers_out = [(bytes_of ''Xkey'', demo_tag)], r_main = True, r_header_only = False,
      r_upstream = Some True, r_cache = Some \<lparr>cr_node = True, cr_file = True, cr_key = demo_key 1\<rparr>,
      r_discard_rc = 0, r_send_rc = 0, r_output_rc = 0, r_calls = []\<rparr>"

lemma demo_purge: "purge_request demo_request demo_tag"
  by (simp add: purge_request_def demo_request_def is_purge_def PURGE_METHOD_def purge_tag_def
      PURGE_HEADER_def eq_ignore_ascii_case_def to_ascii_lowercase_def NGX_OK_def demo_tag_def
      MAX_TAG_LEN_def)

lemma demo_setup: "purge_setup demo_conf (demo_world z) demo_main demo_loc 1 demo_cache"
  by (simp add: purge_setup_def demo_conf_def demo_world_def demo_main_def demo_loc_def)

lemma demo_tags: "response_tags demo_conf demo_request = Some (demo_key 1, [demo_tag])"
  by (simp add: response_tags_def response_key_def demo_conf_def demo_main_def demo_request_def
      demo_tag_def eq_ignore_ascii_case_def to_ascii_lowercase_def split_tags_def
      is_tag_separator_def)

end
