(* ===== verification/Core_Properties.thy ===== *)
theory Core_Properties
  imports Reference_World
begin

text \<open>
  The properties of the pure functions (\<open>xkey-core\<close>), of the cache tree and of the names and
  blocks of cache files, with their witnesses.
\<close>

section \<open>Tags and headers\<close>

text \<open>C27: Splitting a tag list gives back the tags it was written with: whatever runs of spaces,
  tabs, commas and line breaks stand between two tags, and whatever separators, or none, stand
  before the first and after the last.\<close>

theorem split_tags_roundtrip:
  assumes "seps lead" "\<forall>(t, s)\<in>set ps. tag_ok t \<and> seps s" "\<forall>(t, s)\<in>set (butlast ps). s \<noteq> []"
  shows "split_tags (lead @ join_tags ps) = map fst ps"
  using assms by (rule split_tags_join)

theorem split_tags_roundtrip_witness:
  "split_tags (bytes_of '' a, bc'') = [bytes_of ''a'', bytes_of ''bc'']"
  using split_tags_roundtrip [of "bytes_of '' ''" "[(bytes_of ''a'', bytes_of '', ''), (bytes_of ''bc'', [])]"]
  by (simp add: tag_ok_def seps_def is_tag_separator_def join_tags_def)

text \<open>C26: In the header block that NGINX stores for a response, \<open>find_header\<close> finds the first
  header of the name, in any case, with its value trimmed, and nothing when there is none.\<close>

theorem find_header_stored:
  assumes "\<forall>h\<in>set hs. header_ok h" "58 \<notin> set status" "10 \<notin> set status"
  shows "find_header (header_block status hs) name = map_option trim (header_lookup name hs)"
  using assms by (rule find_header_block)

theorem find_header_stored_witness:
  "find_header (header_block (bytes_of ''HTTP/1.1 200 OK'') [(bytes_of ''Xkey'', bytes_of ''a b'')])
     (bytes_of ''xkey'') = Some (trim (bytes_of ''a b''))"
  using find_header_stored [of "[(bytes_of ''Xkey'', bytes_of ''a b'')]"
      "bytes_of ''HTTP/1.1 200 OK''" "bytes_of ''xkey''"]
  by (simp add: header_ok_def field_name_def is_ascii_whitespace_def eq_ignore_ascii_case_def
      to_ascii_lowercase_def)



text \<open>C24: The recorder, which splits the response header, and the scan, which splits the header
  it finds in the stored block, see the same tags, as long as the header has no form feed.\<close>

theorem recorder_scan_agree:
  assumes "\<forall>h\<in>set hs. header_ok h \<and> 12 \<notin> set (snd h)" "58 \<notin> set status" "10 \<notin> set status"
  shows "map_option split_tags (find_header (header_block status hs) name) =
    map_option split_tags (header_lookup name hs)"
proof -
  have "split_tags (trim v) = split_tags v" if "12 \<notin> set v" for v
  proof -
    obtain us vs where v: "v = us @ trim v @ vs" "\<forall>c\<in>set us. is_ascii_whitespace c"
      "\<forall>c\<in>set vs. is_ascii_whitespace c" using trim_cut [of v] by blast
    have "12 \<notin> set us" "12 \<notin> set vs" using that by (subst (asm) v(1); simp)+
    then have "\<forall>c\<in>set us. is_tag_separator c" "\<forall>c\<in>set vs. is_tag_separator c"
      using v(2,3) by (auto simp: is_ascii_whitespace_def is_tag_separator_def)
    then show ?thesis
      using split_tags_all_sep [of us "trim v @ vs"] split_tags_all_sep_back [of vs "trim v"]
      by (subst (2) v(1)) simp
  qed
  moreover have "12 \<notin> set v" if "header_lookup name hs = Some v" for v
    using that assms(1) by (induction name hs rule: header_lookup.induct) (auto split: if_splits)
  ultimately show ?thesis
    using find_header_block [OF _ assms(2,3), of hs name] assms(1)
    by (cases "header_lookup name hs") simp_all
qed

theorem recorder_scan_agree_witness:
  "map_option split_tags (find_header
      (header_block (bytes_of ''HTTP/1.1 200 OK'') [(bytes_of ''Xkey'', bytes_of '' a,b'')]) (bytes_of ''xkey''))
   = Some [bytes_of ''a'', bytes_of ''b'']"
  using recorder_scan_agree [of "[(bytes_of ''Xkey'', bytes_of '' a,b'')]"
      "bytes_of ''HTTP/1.1 200 OK''" "bytes_of ''xkey''"]
  by (simp add: header_ok_def field_name_def is_ascii_whitespace_def eq_ignore_ascii_case_def
      to_ascii_lowercase_def split_tags_def is_tag_separator_def)

text \<open>A form feed is whitespace to \<open>trim\<close> but no separator of tags.\<close>

lemma split_tags_form_feed: "\<exists>s ts. split_tags (12 # v) = (12 # s) # ts"
  by (cases "split_on is_tag_separator v") (auto simp: split_tags_def is_tag_separator_def)

lemma trim_form_feed_shorter:
  "length (concat (split_tags (trim (12 # v)))) < length (concat (split_tags (12 # v)))"
proof -
  let ?keep = "filter (\<lambda>c. \<not> is_tag_separator c)"
  have ff: "is_ascii_whitespace 12" "\<not> is_tag_separator 12"
    by (simp_all add: is_ascii_whitespace_def is_tag_separator_def)
  obtain us vs where c: "12 # v = us @ trim (12 # v) @ vs" using trim_cut by blast
  have "length (?keep (trim (12 # v))) < length (?keep (12 # v))"
  proof (cases us)
    case Nil
    then have "trim (12 # v) = []"
      using c trim_ends [of "12 # v"] ff(1) by (cases "trim (12 # v)") auto
    then show ?thesis using ff(2) by simp
  next
    case (Cons x us')
    then have "12 # v = 12 # us' @ trim (12 # v) @ vs" using c by simp
    then have "?keep (12 # v) = 12 # ?keep (us' @ trim (12 # v) @ vs)" using ff(2) by simp
    then show ?thesis by simp
  qed
  then show ?thesis by (simp add: concat_split_tags)
qed

text \<open>C25: With a form feed they differ: of a header value that starts with one, the recorder keeps
  the form feed at the front of the first tag, and the scan, which trims it off, sees another
  list of tags. In the plain case, a form feed and one tag, the tag is recorded with the form
  feed and scanned without.\<close>

theorem recorder_scan_differ:
  assumes "\<forall>h\<in>set hs. header_ok h" "58 \<notin> set status" "10 \<notin> set status"
    and "header_lookup name hs = Some (12 # v)"
  shows "(\<exists>t ts ts'. map_option split_tags (header_lookup name hs) = Some ((12 # t) # ts)
      \<and> map_option split_tags (find_header (header_block status hs) name) = Some ts'
      \<and> ts' \<noteq> (12 # t) # ts)
    \<and> (tag_ok v \<and> 12 \<notin> set v \<longrightarrow>
        map_option split_tags (header_lookup name hs) = Some [12 # v]
      \<and> map_option split_tags (find_header (header_block status hs) name) = Some [v])"
proof -
  have find: "find_header (header_block status hs) name = Some (trim (12 # v))"
    using find_header_block [OF assms(1-3), of name] assms(4) by simp
  obtain t ts where ts: "split_tags (12 # v) = (12 # t) # ts" using split_tags_form_feed by blast
  then have "split_tags (trim (12 # v)) \<noteq> (12 # t) # ts" using trim_form_feed_shorter [of v] by auto
  moreover have "split_tags (12 # v) = [12 # v] \<and> split_tags (trim (12 # v)) = [v]"
    if v: "tag_ok v" "12 \<notin> set v"
  proof -
    have "\<not> is_ascii_whitespace c" if "c \<in> set v" for c
      using v that by (auto simp: tag_ok_def is_tag_separator_def is_ascii_whitespace_def)
    then have "trim ([12] @ v @ []) = v"
      using v(1) by (intro trim_eqI) (auto simp: tag_ok_def is_ascii_whitespace_def)
    moreover have "tag_ok (12 # v)" using v(1) by (simp add: tag_ok_def is_tag_separator_def)
    ultimately show ?thesis using v(1) by (simp add: split_tags_single tag_ok_def)
  qed
  ultimately show ?thesis using find assms(4) ts by simp
qed

theorem recorder_scan_differ_witness:
  "let hs = [(bytes_of ''Xkey'', 12 # bytes_of ''a'')] in
   map_option split_tags (header_lookup (bytes_of ''xkey'') hs) = Some [12 # bytes_of ''a'']
   \<and> map_option split_tags (find_header (header_block (bytes_of ''HTTP/1.1 200 OK'') hs) (bytes_of ''xkey''))
       = Some [bytes_of ''a'']"
  using recorder_scan_differ [of "[(bytes_of ''Xkey'', 12 # bytes_of ''a'')]" "bytes_of ''HTTP/1.1 200 OK''"
      "bytes_of ''xkey''" "bytes_of ''a''"]
  by (simp add: header_ok_def field_name_def is_ascii_whitespace_def eq_ignore_ascii_case_def
      to_ascii_lowercase_def tag_ok_def is_tag_separator_def)

text \<open>Trimming removes whitespace only, from both ends, and all of it.\<close>

lemma trim_spec:
  "\<exists>us vs. s = us @ trim s @ vs \<and> list_all is_ascii_whitespace us \<and> list_all is_ascii_whitespace vs
     \<and> (trim s = [] \<or> \<not> is_ascii_whitespace (hd (trim s)) \<and> \<not> is_ascii_whitespace (last (trim s)))"
proof -
  obtain us vs where "s = us @ trim s @ vs" "\<forall>c\<in>set us. is_ascii_whitespace c"
    "\<forall>c\<in>set vs. is_ascii_whitespace c" using trim_cut [of s] by blast
  then show ?thesis using trim_ends [of s] by (metis list_all_iff)
qed

text \<open>Every tag that splitting gives is nonempty and free of separators, and together the
  tags are the value without its separators.\<close>

lemma split_tags_spec:
  "concat (split_tags v) = filter (\<lambda>c. \<not> is_tag_separator c) v
   \<and> list_all tag_ok (split_tags v)"
  using split_tags_wf [of _ v] concat_split_tags [of v] by (auto simp: list_all_iff tag_ok_def)

section \<open>Numbers and keys\<close>

text \<open>C29: Decoding what \<open>hex_encode\<close> wrote into a buffer of twice the length gives the bytes
  back, whatever the buffers held.\<close>

theorem hex_roundtrip:
  assumes "length dst = 2 * length src" "length out = length src"
  shows "fst (hex_encode src dst) = Some (2 * length src)
    \<and> hex_decode (snd (hex_encode src dst)) out = (True, src)"
proof -
  have "hex_encode src dst = (Some (2 * length src), hex_of src)"
    using assms(1) by (simp add: hex_encode_eq)
  then show ?thesis
    using hex_decode_unhex [of "hex_of src" out] assms(2) by (simp add: unhex_hex_of)
qed

theorem hex_roundtrip_witness:
  "hex_decode (snd (hex_encode [171, 7] [0, 0, 0, 0])) [1, 1] = (True, [171, 7])"
  using hex_roundtrip [of "[0, 0, 0, 0]" "[171, 7]" "[1, 1]"] by simp

text \<open>\<open>hex_decode\<close> accepts exactly the texts of the right length that consist of hex digits,
  and what it decodes encodes back to the text in lower case.\<close>

lemma hex_decode_spec:
  "fst (hex_decode src dst) \<longleftrightarrow>
     length src = 2 * length dst \<and> unhex src \<noteq> None
   \<and> hex_of (snd (hex_decode src dst)) = map to_ascii_lowercase src"
proof (cases "length src = 2 * length dst")
  case True
  then show ?thesis
    using hex_decode_unhex [OF True] hex_of_unhex [of src] by (auto split: option.splits)
qed (simp add: hex_decode_def mult.commute)

text \<open>C30: \<open>format_usize\<close> never runs out of its 20 bytes and gives the decimal of the number: digits
  that read back as it, \<open>0\<close> for zero and no leading zero for any other number.\<close>

theorem format_usize_spec:
  assumes "length buf = 20"
  shows "\<exists>d. format_usize buf n = Some d \<and> length d \<le> 20 \<and> of_decimal d = unat n
    \<and> list_all (\<lambda>c. 48 \<le> c \<and> c \<le> 57) d \<and> (if n = 0 then d = [48] else d \<noteq> [] \<and> hd d \<noteq> 48)"
proof -
  have "unat n < 10 ^ 20" using unsigned_less [where w = n, where 'a = nat] by simp
  then have "length (decimal (unat n)) \<le> 20" by (intro length_decimal) simp_all
  moreover have "hd (decimal (unat n)) \<noteq> 48" if "n \<noteq> 0"
    using decimal_no_leading_zero [of "unat n"] that by (simp add: unat_gt_0)
  ultimately show ?thesis
    using format_usize_decimal [OF assms, of n] decimal_digits [of "unat n"]
    by (auto simp: of_decimal_decimal list_all_iff decimal_0)
qed

theorem format_usize_spec_witness:
  "\<exists>d. format_usize (replicate 20 0) 18446744073709551615 = Some d \<and> of_decimal d = 18446744073709551615"
  using format_usize_spec [of "replicate 20 0" 18446744073709551615] by force

text \<open>The integer key and the remainder that a tree node keeps identify the cache key, in
  either byte order, and the order a search follows is a strict linear order on them.\<close>

lemma node_key_order:
  assumes "key_ok a" "key_ok b"
  shows "(a = b \<longleftrightarrow> node_key e a = node_key e b \<and> node_key_rest a = node_key_rest b)
    \<and> (if a = b then \<not> nkey_less (nkey_of e a) (nkey_of e b)
       else nkey_less (nkey_of e a) (nkey_of e b) \<noteq> nkey_less (nkey_of e b) (nkey_of e a))"
proof -
  have "a = b \<longleftrightarrow> node_key e a = node_key e b \<and> node_key_rest a = node_key_rest b"
    using node_key_inj [OF assms] by blast
  moreover have "nkey_less (nkey_of e a) (nkey_of e b) \<noteq> nkey_less (nkey_of e b) (nkey_of e a)"
    if "a \<noteq> b"
  proof -
    have "nkey_of e a \<noteq> nkey_of e b" using nkey_of_inj [OF assms] that by blast
    then show ?thesis using nkey_less_linear nkey_less_trans nkey_less_irrefl by metis
  qed
  ultimately show ?thesis by (cases "a = b") auto
qed

section \<open>The cache tree\<close>

text \<open>C22: On an ordered cache tree the walk of \<open>invalidate\<close> ends, finds the entry exactly when
  a live node has the whole key, clears that node only and keeps the size total the sum of the
  live nodes' sizes.\<close>

theorem invalidate_spec:
  assumes "cache_ok c t" "key_ok key"
  shows "\<exists>c'. invalidate e c key = Some (nkey_of e key \<in> live_keys c t, c')
    \<and> cache_ok c' t \<and> live_keys c' t = live_keys c t - {nkey_of e key}"
  using assms by (rule invalidate_ok)

theorem invalidate_spec_witness:
  "\<exists>c'. invalidate Little demo_tree (demo_key 1) = Some (True, c')
    \<and> live_keys c' (Node Leaf 1 Leaf) = {}"
  using invalidate_spec [OF demo_tree_ok, of "demo_key 1" Little] demo_tree_live by auto

section \<open>Cache files\<close>

text \<open>C28: The name NGINX gives the file of a key leads the scan back to the key.\<close>

theorem cache_file_key:
  assumes "key_ok key"
  shows "key_from_path (cache_file dirs p key) = Some key"
  using assms by (rule key_from_cache_file)

theorem cache_file_key_witness: "key_from_path (cache_file disk_dirs demo_path (demo_key 7)) = Some (demo_key 7)"
  using cache_file_key [of "demo_key 7" disk_dirs demo_path] by simp

text \<open>A path has a key exactly when its last 32 bytes are hex digits: the check for the
  suffix of a temporary file only ever refuses paths that the decoding refuses too.\<close>

lemma key_from_path_spec:
  "key_from_path path =
     (if length path < 32 then None else unhex (drop (length path - 32) path))"
  by (rule key_from_path_eq)

text \<open>The scan's test on a file is the test \<open>block_has_tag\<close> of the core crate on the header
  block the file stores.\<close>

lemma carries_block_has_tag:
  "carries S room hdr F tag p \<longleftrightarrow>
     key_from_path p \<noteq> None \<and> (case F p of None \<Rightarrow> False | Some d \<Rightarrow>
        (case stored_block S room d of None \<Rightarrow> False | Some b \<Rightarrow> block_has_tag b hdr tag))"
  by (auto simp: carries_def entry_at_def block_has_tag_def list_ex_iff split: option.splits)

text \<open>\<open>delete_file\<close> builds the name of the key's cache file whatever the pool memory held,
  never panics on the size of its hex buffer, and removes that file or nothing.\<close>

lemma delete_file_spec:
  assumes "posix S files dirs" "key_ok key" "0 \<notin> set (p_name p)"
  shows "\<exists>b w'. delete_file S (Some p) key w = Some (b, w')
    \<and> (if b then files w (cache_file dirs p key) \<noteq> None
          \<and> files w' = (files w)(cache_file dirs p key := None)
        else files w' = files w)"
  using posix.delete_file_ok [OF assms, of w] by blast

end
