(* ===== verification/Core_Tests.thy ===== *)
theory Core_Tests
  imports Xkey_Text Xkey_Hex Xkey_Key
begin

text \<open>
  The unit tests of \<open>xkey-core/src/lib.rs\<close> (its module \<open>tests\<close>), each a truth value over the
  model: a test holds when every assertion in its body does. A \<open>let mut\<close> array is a list that the
  call returns updated. They say that the model computes, on the inputs the authors chose, what
  the code computes; the general laws are in the theories of the functions themselves.
\<close>

section \<open>The tests\<close>

definition BLOCK :: bytes where
  "BLOCK =
     bytes_of ''HTTP/1.1 200 OK'' @ [13, 10] @ bytes_of ''Server: origin'' @ [13, 10]
     @ bytes_of ''XKey: product-1234 all'' @ [13, 10] @ bytes_of ''Content-Length: 4'' @ [13, 10, 13, 10]"

definition decodes_a_cache_file_name :: bool where
  "decodes_a_cache_file_name \<longleftrightarrow>
     (let key = replicate CACHE_KEY_LEN 0;
          (ok, key) = hex_decode (bytes_of ''a770dee480525bf34f9a7ba08e552c3d'') key
      in ok \<and> key ! 0 = 0xa7 \<and> key ! (CACHE_KEY_LEN - 1) = 0x3d)"

definition hex_round_trips :: bool where
  "hex_round_trips \<longleftrightarrow>
     (let key = [0x00, 0x11, 0x22, 0x33, 0x44, 0x55, 0x66, 0x77, 0x88, 0x99, 0xaa, 0xbb, 0xcc, 0xdd,
                 0xee, 0xff];
          encoded = replicate 32 0;
          (r, encoded) = hex_encode key encoded;
          decoded = replicate CACHE_KEY_LEN 0;
          (ok, decoded) = hex_decode encoded decoded
      in r \<noteq> None \<and> ok \<and> decoded = key)"

definition hex_decode_accepts_uppercase :: bool where
  "hex_decode_accepts_uppercase \<longleftrightarrow>
     (let key = replicate 2 0; (ok, key) = hex_decode (bytes_of ''AbCd'') key
      in ok \<and> key = [0xab, 0xcd])"

definition hex_decode_rejects_non_hex_and_bad_lengths :: bool where
  "hex_decode_rejects_non_hex_and_bad_lengths \<longleftrightarrow>
     (let key = replicate CACHE_KEY_LEN 0;
          (ok1, key) = hex_decode (bytes_of ''a770dee480525bf34f9a7ba08e552c3g'') key;
          (ok2, key) = hex_decode (bytes_of ''abcd'') key;
          (ok3, key) = hex_decode (bytes_of '''') key
      in \<not> ok1 \<and> \<not> ok2 \<and> \<not> ok3)"

definition finds_a_header_regardless_of_case :: bool where
  "finds_a_header_regardless_of_case \<longleftrightarrow>
     find_header BLOCK (bytes_of ''xkey'') = Some (bytes_of ''product-1234 all'')
     \<and> find_header BLOCK (bytes_of ''SERVER'') = Some (bytes_of ''origin'')"

definition missing_header_is_none :: bool where
  "missing_header_is_none \<longleftrightarrow> find_header BLOCK (bytes_of ''surrogate-key'') = None"

definition header_search_tolerates_lf_only_blocks :: bool where
  "header_search_tolerates_lf_only_blocks \<longleftrightarrow>
     (let block = bytes_of ''HTTP/1.1 200 OK'' @ [10] @ bytes_of ''XKey: a b'' @ [10, 10]
      in find_header block (bytes_of ''xkey'') = Some (bytes_of ''a b''))"

definition block_tag_match_is_exact_per_tag :: bool where
  "block_tag_match_is_exact_per_tag \<longleftrightarrow>
     block_has_tag BLOCK (bytes_of ''xkey'') (bytes_of ''product-1234'')
     \<and> block_has_tag BLOCK (bytes_of ''xkey'') (bytes_of ''all'')
     \<and> \<not> block_has_tag BLOCK (bytes_of ''xkey'') (bytes_of ''product'')
     \<and> \<not> block_has_tag BLOCK (bytes_of ''xkey'') (bytes_of ''product-1234 all'')"

definition block_without_the_header_matches_nothing :: bool where
  "block_without_the_header_matches_nothing \<longleftrightarrow>
     (let block = bytes_of ''HTTP/1.1 200 OK'' @ [13, 10] @ bytes_of ''Server: origin'' @ [13, 10, 13, 10]
      in \<not> block_has_tag block (bytes_of ''xkey'') (bytes_of ''all''))"

definition test_tags :: "bytes \<Rightarrow> bytes list" where
  "test_tags value = split_tags value"

definition splits_on_spaces :: bool where
  "splits_on_spaces \<longleftrightarrow>
     test_tags (bytes_of ''product-1234 category-shoes'') = [bytes_of ''product-1234'', bytes_of ''category-shoes'']"

definition splits_on_commas_and_tabs :: bool where
  "splits_on_commas_and_tabs \<longleftrightarrow>
     test_tags (bytes_of ''a,b'' @ [9] @ bytes_of ''c'') = [bytes_of ''a'', bytes_of ''b'', bytes_of ''c'']"

definition drops_empty_runs :: bool where
  "drops_empty_runs \<longleftrightarrow> test_tags (bytes_of ''  a ,,  b  '') = [bytes_of ''a'', bytes_of ''b'']"

definition drops_trailing_newline :: bool where
  "drops_trailing_newline \<longleftrightarrow>
     test_tags (bytes_of ''a b'' @ [13, 10]) = [bytes_of ''a'', bytes_of ''b'']"

definition empty_header_yields_no_tags :: bool where
  "empty_header_yields_no_tags \<longleftrightarrow> test_tags (bytes_of '''') = [] \<and> test_tags (bytes_of ''   '') = []"

definition single_tag_survives_intact :: bool where
  "single_tag_survives_intact \<longleftrightarrow> test_tags (bytes_of ''product-1234'') = [bytes_of ''product-1234'']"

text \<open>\<open>u32::from_be_bytes\<close>, widened to a \<open>usize\<close>.\<close>

definition from_be_bytes_u32 :: "bytes \<Rightarrow> usize" where
  "from_be_bytes_u32 bs = ucast (word_rcat bs :: 32 word)"

definition node_key_copies_bytes_verbatim :: "endian \<Rightarrow> bool" where
  "node_key_copies_bytes_verbatim e \<longleftrightarrow>
     (let key = map of_nat [0..<CACHE_KEY_LEN];
          expected = from_ne_bytes e (take USIZE_BYTES key)
      in node_key e key = expected \<and> node_key e key \<noteq> from_be_bytes_u32 [0, 1, 2, 3])"

definition node_key_and_rest_cover_the_whole_key :: bool where
  "node_key_and_rest_cover_the_whole_key \<longleftrightarrow>
     (let key = replicate CACHE_KEY_LEN 0xab
      in length (node_key_rest key) = CACHE_KEY_LEN - USIZE_BYTES)"

definition distinct_keys_give_distinct_nodes :: "endian \<Rightarrow> bool" where
  "distinct_keys_give_distinct_nodes e \<longleftrightarrow>
     (let a = replicate CACHE_KEY_LEN 0; b = replicate CACHE_KEY_LEN 0;
          a = a[0 := 1]; b = b[0 := 2]
      in node_key e a \<noteq> node_key e b)"

definition keys_differing_late_share_a_node_key :: "endian \<Rightarrow> bool" where
  "keys_differing_late_share_a_node_key e \<longleftrightarrow>
     (let a = replicate CACHE_KEY_LEN 0; b = replicate CACHE_KEY_LEN 0;
          a = a[CACHE_KEY_LEN - 1 := 1]; b = b[CACHE_KEY_LEN - 1 := 2]
      in node_key e a = node_key e b \<and> node_key_rest a \<noteq> node_key_rest b)"

definition hex_encodes_lowercase :: bool where
  "hex_encodes_lowercase \<longleftrightarrow>
     (let out = replicate 32 0;
          key = [0xa7, 0x70, 0xde, 0xe4, 0x80, 0x52, 0x5b, 0xf3, 0x4f, 0x9a, 0x7b, 0xa0, 0x8e, 0x55,
                 0x2c, 0x3d];
          (r, out) = hex_encode key out
      in r = Some 32 \<and> out = bytes_of ''a770dee480525bf34f9a7ba08e552c3d'')"

definition hex_refuses_a_short_buffer :: bool where
  "hex_refuses_a_short_buffer \<longleftrightarrow>
     (let out = replicate 31 0 in fst (hex_encode (replicate 16 0) out) = None)"

definition formats_counts :: bool where
  "formats_counts \<longleftrightarrow>
     (let buf = replicate 20 0 in
      format_usize buf 0 = Some (bytes_of ''0'') \<and> format_usize buf 7 = Some (bytes_of ''7'')
      \<and> format_usize buf 10 = Some (bytes_of ''10'') \<and> format_usize buf 1234 = Some (bytes_of ''1234'')
      \<and> map_option length (format_usize buf (- 1)) = Some 20)"

section \<open>They pass\<close>

lemma decodes_a_cache_file_name_passes: "decodes_a_cache_file_name"
  by code_simp

lemma hex_round_trips_passes: "hex_round_trips"
  by code_simp

lemma hex_decode_accepts_uppercase_passes: "hex_decode_accepts_uppercase"
  by code_simp

lemma hex_decode_rejects_non_hex_and_bad_lengths_passes: "hex_decode_rejects_non_hex_and_bad_lengths"
  by code_simp

lemma finds_a_header_regardless_of_case_passes: "finds_a_header_regardless_of_case"
  by code_simp

lemma missing_header_is_none_passes: "missing_header_is_none"
  by code_simp

lemma header_search_tolerates_lf_only_blocks_passes: "header_search_tolerates_lf_only_blocks"
  by code_simp

lemma block_tag_match_is_exact_per_tag_passes: "block_tag_match_is_exact_per_tag"
  by code_simp

lemma block_without_the_header_matches_nothing_passes: "block_without_the_header_matches_nothing"
  by code_simp

lemma splits_on_spaces_passes: "splits_on_spaces"
  by code_simp

lemma splits_on_commas_and_tabs_passes: "splits_on_commas_and_tabs"
  by code_simp

lemma drops_empty_runs_passes: "drops_empty_runs"
  by code_simp

lemma drops_trailing_newline_passes: "drops_trailing_newline"
  by code_simp

lemma empty_header_yields_no_tags_passes: "empty_header_yields_no_tags"
  by code_simp

lemma single_tag_survives_intact_passes: "single_tag_survives_intact"
  by code_simp

lemma node_key_copies_bytes_verbatim_passes: "node_key_copies_bytes_verbatim e"
  by (cases e; simp only:; code_simp)

lemma node_key_and_rest_cover_the_whole_key_passes: "node_key_and_rest_cover_the_whole_key"
  by code_simp

lemma distinct_keys_give_distinct_nodes_passes: "distinct_keys_give_distinct_nodes e"
  by (cases e; simp only:; code_simp)

lemma keys_differing_late_share_a_node_key_passes: "keys_differing_late_share_a_node_key e"
  by (cases e; simp only:; code_simp)

lemma hex_encodes_lowercase_passes: "hex_encodes_lowercase"
  by code_simp

lemma hex_refuses_a_short_buffer_passes: "hex_refuses_a_short_buffer"
  by code_simp

lemma formats_counts_passes: "formats_counts"
  by code_simp

definition unit_tests :: "endian \<Rightarrow> (string \<times> bool) list" where
  "unit_tests e =
     [(''decodes_a_cache_file_name'', decodes_a_cache_file_name),
      (''hex_round_trips'', hex_round_trips),
      (''hex_decode_accepts_uppercase'', hex_decode_accepts_uppercase),
      (''hex_decode_rejects_non_hex_and_bad_lengths'', hex_decode_rejects_non_hex_and_bad_lengths),
      (''finds_a_header_regardless_of_case'', finds_a_header_regardless_of_case),
      (''missing_header_is_none'', missing_header_is_none),
      (''header_search_tolerates_lf_only_blocks'', header_search_tolerates_lf_only_blocks),
      (''block_tag_match_is_exact_per_tag'', block_tag_match_is_exact_per_tag),
      (''block_without_the_header_matches_nothing'', block_without_the_header_matches_nothing),
      (''splits_on_spaces'', splits_on_spaces),
      (''splits_on_commas_and_tabs'', splits_on_commas_and_tabs),
      (''drops_empty_runs'', drops_empty_runs),
      (''drops_trailing_newline'', drops_trailing_newline),
      (''empty_header_yields_no_tags'', empty_header_yields_no_tags),
      (''single_tag_survives_intact'', single_tag_survives_intact),
      (''node_key_copies_bytes_verbatim'', node_key_copies_bytes_verbatim e),
      (''node_key_and_rest_cover_the_whole_key'', node_key_and_rest_cover_the_whole_key),
      (''distinct_keys_give_distinct_nodes'', distinct_keys_give_distinct_nodes e),
      (''keys_differing_late_share_a_node_key'', keys_differing_late_share_a_node_key e),
      (''hex_encodes_lowercase'', hex_encodes_lowercase),
      (''hex_refuses_a_short_buffer'', hex_refuses_a_short_buffer),
      (''formats_counts'', formats_counts)]"

lemmas unit_tests_passed =
  decodes_a_cache_file_name_passes
  hex_round_trips_passes
  hex_decode_accepts_uppercase_passes
  hex_decode_rejects_non_hex_and_bad_lengths_passes
  finds_a_header_regardless_of_case_passes
  missing_header_is_none_passes
  header_search_tolerates_lf_only_blocks_passes
  block_tag_match_is_exact_per_tag_passes
  block_without_the_header_matches_nothing_passes
  splits_on_spaces_passes
  splits_on_commas_and_tabs_passes
  drops_empty_runs_passes
  drops_trailing_newline_passes
  empty_header_yields_no_tags_passes
  single_tag_survives_intact_passes
  node_key_copies_bytes_verbatim_passes
  node_key_and_rest_cover_the_whole_key_passes
  distinct_keys_give_distinct_nodes_passes
  keys_differing_late_share_a_node_key_passes
  hex_encodes_lowercase_passes
  hex_refuses_a_short_buffer_passes
  formats_counts_passes

text \<open>The model passes every unit test of the text and number functions, on a target of
  either byte order.\<close>

lemma unit_tests_pass: "list_all snd (unit_tests e)"
  by (simp add: unit_tests_def unit_tests_passed)

end
