(* ===== verification/Index_Properties.thy ===== *)
theory Index_Properties
  imports Reference_World
begin

text \<open>
  The properties of the tag index and its zone. They hold for every provider of the containers
  that satisfies \<open>ngx_env\<close>; the witnesses use the reference provider.
\<close>

lemma demo_index:
  obtains ti ps a where "z_data tagged_zone = Some ti" "z_slab tagged_zone = Some a"
    "index_ok ref_room dll_ring ref_map_ok ti ps" "index_view ti ps = [(demo_tag, [demo_key 1])]"
  using tagged_zone_rel by (auto simp: zone_rel_def)

section \<open>Operations of the index\<close>

text \<open>C8: An insert of an acceptable tag never follows a dangling link, keeps the invariant, and
  computes what the list of tags says: the tag is touched, up to \<open>EVICT_ATTEMPTS\<close> of the
  coldest tags go to make room, then the key is recorded, or nothing is when the room never
  comes; the counters count the evictions and the keys shed.\<close>

theorem insert_refines:
  assumes "ngx_env N ring map_ok" "index_ok N ring map_ok ti ps"
    and "tag \<noteq> []" "length tag \<le> MAX_TAG_LEN"
  shows "\<exists>r ti' a' ps' m. index_insert N tag key (ti, a) = Some (r, ti', a')
    \<and> index_ok N ring map_ok ti' ps'
    \<and> insert_result EVICT_ATTEMPTS tag key (lru_touch tag (index_view ti ps)) m r (index_view ti' ps')
    \<and> ti_evicted ti' = ti_evicted ti + of_nat m
    \<and> ti_dropped ti' = ti_dropped ti
        + shed_count r tag key (lru_evict m (lru_touch tag (index_view ti ps)))"
  using assms by (rule ngx_env.insert_ok)

theorem insert_refines_witness:
  "\<exists>ti ps. index_view ti ps = [(demo_tag, [demo_key 1])] \<and>
     (\<exists>r ti' a' ps' m. index_insert ref_room demo_tag (demo_key 2) (ti, 0) = Some (r, ti', a')
       \<and> index_ok ref_room dll_ring ref_map_ok ti' ps')"
proof -
  obtain ti ps a where "index_ok ref_room dll_ring ref_map_ok ti ps"
    "index_view ti ps = [(demo_tag, [demo_key 1])]" by (rule demo_index)
  then show ?thesis
    using insert_refines [OF room.ngx_env_axioms _ demo_tag_ok, of ti ps "demo_key 2" 0] by blast
qed

text \<open>C11: Taking a tag gives exactly the keys recorded under it and removes the tag and nothing
  else; it never follows a dangling link and keeps the invariant.\<close>

theorem take_refines:
  assumes "ngx_env N ring map_ok" "index_ok N ring map_ok ti ps"
  shows "\<exists>v ti' a' ps'. index_take N tag (ti, a) = Some (v, ti', a')
    \<and> map_option items v = map_of (index_view ti ps) tag
    \<and> index_ok N ring map_ok ti' ps'
    \<and> index_view ti' ps' = lru_remove tag (index_view ti ps)
    \<and> ti_evicted ti' = ti_evicted ti \<and> ti_dropped ti' = ti_dropped ti"
  by (rule ngx_env.take_ok [OF assms, of tag a]) blast

theorem take_refines_witness:
  "\<exists>ti ti' ps' v a'. index_take ref_room demo_tag (ti, 0) = Some (v, ti', a')
    \<and> map_option items v = Some [demo_key 1] \<and> index_view ti' ps' = []"
proof -
  obtain ti ps a where "index_ok ref_room dll_ring ref_map_ok ti ps"
    "index_view ti ps = [(demo_tag, [demo_key 1])]" by (rule demo_index)
  then show ?thesis
    using take_refines [OF room.ngx_env_axioms, of ti ps demo_tag 0]
    by (fastforce simp: lru_remove_def)
qed

text \<open>C12: An eviction starts from the bare link at the cold end of the queue and removes exactly
  the tag it belongs to, the least recently used one; it fails on an empty index only.\<close>

theorem evict_coldest:
  assumes "ngx_env N ring map_ok" "index_ok N ring map_ok ti ps"
  shows "\<exists>b ti' a'. evict N (ti, a) = Some (b, ti', a') \<and> (b \<longleftrightarrow> ps \<noteq> [])
    \<and> index_ok N ring map_ok ti' (butlast ps)
    \<and> index_view ti' (butlast ps) = butlast (index_view ti ps)
    \<and> ti_evicted ti' = ti_evicted ti + of_bool b \<and> ti_dropped ti' = ti_dropped ti"
  by (rule ngx_env.evict_ok [OF assms, of a]) blast

theorem evict_coldest_witness:
  "\<exists>ti ti' a'. evict ref_room (ti, 0) = Some (True, ti', a') \<and> ti_evicted ti' = ti_evicted ti + 1"
proof -
  obtain ti ps a where i: "index_ok ref_room dll_ring ref_map_ok ti ps"
    "index_view ti ps = [(demo_tag, [demo_key 1])]" by (rule demo_index)
  then have "ps \<noteq> []" by auto
  then show ?thesis using evict_coldest [OF room.ngx_env_axioms i(1), of 0] by force
qed

text \<open>A tag that is empty or longer than \<open>MAX_TAG_LEN\<close> is refused and leaves index and
  allocator as they were.\<close>

lemma insert_refuses:
  "tag_accepted tag \<or> index_insert N tag key s = Some (Inl AllocError, s)"
  by (auto simp: tag_accepted_def index_insert_def)

text \<open>While the zone has room an insert never evicts: it succeeds, touches the tag and
  records the key.\<close>

lemma insert_with_room:
  assumes "ngx_room N ring map_ok" "index_ok N ring map_ok ti ps"
    and "tag \<noteq> []" "length tag \<le> MAX_TAG_LEN"
  shows "\<exists>ti' a' ps'. index_insert N tag key (ti, a) = Some (Inr (), ti', a')
    \<and> index_ok N ring map_ok ti' ps'
    \<and> index_view ti' ps' = lru_record tag key (lru_touch tag (index_view ti ps))"
  using assms by (rule ngx_room.insert_room)

theorem insert_with_room_witness:
  "\<exists>ti ti' a' ps'. index_insert ref_room demo_tag (demo_key 2) (ti, 0) = Some (Inr (), ti', a')
    \<and> index_view ti' ps' = [(demo_tag, [demo_key 1, demo_key 2])]"
proof -
  obtain ti ps a where i: "index_ok ref_room dll_ring ref_map_ok ti ps"
    "index_view ti ps = [(demo_tag, [demo_key 1])]" by (rule demo_index)
  have "lru_record demo_tag (demo_key 2) (lru_touch demo_tag [(demo_tag, [demo_key 1])]) =
      [(demo_tag, [demo_key 1, demo_key 2])]"
    by (simp add: lru_record_def lru_touch_def add_key_def demo_key_def MAX_KEYS_PER_TAG_def)
  then show ?thesis
    using insert_with_room [OF ref_room_env i(1) demo_tag_ok, of "demo_key 2" 0] i(2) by force
qed

section \<open>The zone\<close>

text \<open>C23: From the moment an index is placed, whatever sequence of inserts, takes and drops of taken
  keys the workers make on it, and whichever allocations fail: no tag occurs twice, every tag is
  nonempty and at most \<open>MAX_TAG_LEN\<close> bytes and is found through the map, it has between one and
  \<open>MAX_KEYS_PER_TAG\<close> distinct keys within its capacity, and the counters are the numbers of tags
  and of keys.\<close>

theorem zone_bounds:
  assumes "ngx_env N ring map_ok" "z_data z0 = None" "shared N z0 = (Inr ti0, z1)"
  shows "\<exists>z ti ps es. zone_calls N cs z1 = Some z \<and> z_data z = Some ti
    \<and> ring (ti_lru ti) ps \<and> map (ti_heap ti) ps = map Some es
    \<and> distinct (map e_tag es)
    \<and> (\<forall>i<length ps. map_get N (ti_map ti) (e_tag (es ! i)) = Some (ps ! i))
    \<and> (\<forall>en\<in>set es. e_tag en \<noteq> [] \<and> length (e_tag en) \<le> MAX_TAG_LEN
         \<and> items (e_keys en) \<noteq> [] \<and> distinct (items (e_keys en))
         \<and> length (items (e_keys en)) \<le> MAX_KEYS_PER_TAG
         \<and> length (items (e_keys en)) \<le> capacity (e_keys en))
    \<and> ti_tags ti = of_nat (length es)
    \<and> ti_keys ti = of_nat (\<Sum>en\<leftarrow>es. length (items (e_keys en)))"
proof -
  obtain z L where z: "zone_calls N cs z1 = Some z" "zone_rel N ring map_ok z L"
    using ngx_env.zone_calls_rel [OF assms(1)] ngx_env.shared_fresh [OF assms] by blast
  then obtain ti ps where ti: "z_data z = Some ti" and ok: "index_ok N ring map_ok ti ps"
    by (auto simp: zone_rel_def)
  define es where "es = map (\<lambda>p. the (ti_heap ti p)) ps"
  have heap: "ti_heap ti p = Some (the (ti_heap ti p)) \<and> vec_ok (e_keys (the (ti_heap ti p)))"
    if "p \<in> set ps" for p
    using index_ok_heap [OF ok that] by auto
  have "entry_view ti p = (e_tag (the (ti_heap ti p)), items (e_keys (the (ti_heap ti p))))"
    if "p \<in> set ps" for p
    using heap [OF that] by (cases "ti_heap ti p") (simp_all add: entry_view_def)
  then have view: "index_view ti ps = map (\<lambda>en. (e_tag en, items (e_keys en))) es"
    by (simp add: index_view_def es_def)
  have lru: "lru_ok (map (\<lambda>en. (e_tag en, items (e_keys en))) es)"
    using index_ok_lru [OF ok] view by simp
  have "map (ti_heap ti) ps = map Some es" using heap by (simp add: es_def)
  moreover have "map_get N (ti_map ti) (e_tag (es ! i)) = Some (ps ! i)" if "i < length ps" for i
    using index_ok_get [OF ok] heap [of "ps ! i"] that by (simp add: es_def tag_at_def) metis
  moreover have "distinct (map e_tag es)" using lru by (simp add: lru_ok_def comp_def)
  moreover have "\<forall>en\<in>set es. vec_ok (e_keys en)" using heap by (auto simp: es_def)
  moreover have "ti_tags ti = of_nat (length es)" using index_ok_tags [OF ok] by (simp add: es_def)
  moreover have "ti_keys ti = of_nat (\<Sum>en\<leftarrow>es. length (items (e_keys en)))"
    using index_ok_keys [OF ok] by (simp add: view key_count_def comp_def)
  ultimately show ?thesis
    using z(1) ti index_ok_ring [OF ok] lru
    by (intro exI [of _ z] exI [of _ ti] exI [of _ ps] exI [of _ es])
      (auto simp: lru_ok_def keys_ok_def vec_ok_def)
qed

theorem zone_bounds_witness:
  "\<exists>z ti ps. zone_calls ref_room [InsertTag demo_tag (demo_key 1), InsertTag demo_tag (demo_key 2),
       TakeTag demo_tag, FreeKeys new_vec] demo_zone = Some z
     \<and> z_data z = Some ti \<and> dll_ring (ti_lru ti) ps \<and> ti_tags ti = of_nat (length ps)"
proof -
  obtain ti where ti: "shared ref_room blank_zone = (Inr ti, demo_zone)" using demo_shared by blast
  have "z_data blank_zone = None" by (simp add: blank_zone_def)
  from zone_bounds [OF room.ngx_env_axioms this ti] show ?thesis by (metis length_map)
qed

text \<open>C31: \<open>shared\<close> on a pool that has an index, as after a reload, gives that index and changes
  nothing. On a fresh pool it places an empty index with its counters at zero when the map and
  the index can be allocated, and fails, placing none, when either cannot; without a pool it
  fails.\<close>

theorem shared_spec:
  assumes "ngx_env N ring map_ok"
  shows "(zone_rel N ring map_ok z L \<longrightarrow> (\<exists>ti. shared N z = (Inr ti, z) \<and> z_data z = Some ti))
    \<and> (z_slab z = None \<longrightarrow> shared N z = (Inl NGX_ERROR, z))
    \<and> (z_slab z = Some a \<and> z_data z = None \<longrightarrow>
        (if fst (map_try_new N a) \<noteq> None \<and> fst (alloc_shared N (snd (map_try_new N a)))
         then \<exists>ti z'. shared N z = (Inr ti, z') \<and> zone_rel N ring map_ok z' []
           \<and> z_data z' = Some ti \<and> ti_tags ti = 0 \<and> ti_keys ti = 0 \<and> ti_evicted ti = 0 \<and> ti_dropped ti = 0
         else \<exists>a'. shared N z = (Inl NGX_ERROR, z\<lparr>z_slab := Some a'\<rparr>)))"
proof (intro conjI impI)
  assume "zone_rel N ring map_ok z L"
  then show "\<exists>ti. shared N z = (Inr ti, z) \<and> z_data z = Some ti"
    by (rule ngx_env.shared_adopts [OF assms])
next
  assume "z_slab z = None"
  then show "shared N z = (Inl NGX_ERROR, z)" by (simp add: shared_def)
next
  assume z: "z_slab z = Some a \<and> z_data z = None"
  obtain x z' where sh: "shared N z = (x, z')" by (metis surj_pair)
  show "if fst (map_try_new N a) \<noteq> None \<and> fst (alloc_shared N (snd (map_try_new N a)))
         then \<exists>ti z'. shared N z = (Inr ti, z') \<and> zone_rel N ring map_ok z' []
           \<and> z_data z' = Some ti \<and> ti_tags ti = 0 \<and> ti_keys ti = 0 \<and> ti_evicted ti = 0 \<and> ti_dropped ti = 0
         else \<exists>a'. shared N z = (Inl NGX_ERROR, z\<lparr>z_slab := Some a'\<rparr>)"
  proof (cases "fst (map_try_new N a) \<noteq> None \<and> fst (alloc_shared N (snd (map_try_new N a)))")
    case True
    then obtain ti where ti: "x = Inr ti" "ti_tags ti = 0" "ti_keys ti = 0" "ti_evicted ti = 0" "ti_dropped ti = 0"
      using sh z by (auto simp: shared_def Let_def split: option.splits prod.splits bool.splits)
    then show ?thesis using True ngx_env.shared_fresh [OF assms, of z ti z'] sh z by auto
  next
    case False
    then show ?thesis
      using z by (auto simp: shared_def Let_def split: option.splits prod.splits bool.splits)
  qed
qed

theorem shared_spec_witness:
  "\<exists>ti z'. shared ref_room blank_zone = (Inr ti, z') \<and> zone_rel ref_room dll_ring ref_map_ok z' []"
proof -
  obtain ti where "shared ref_room blank_zone = (Inr ti, demo_zone)" using demo_shared by blast
  moreover have "z_slab blank_zone \<noteq> None" "z_data blank_zone = None" by (simp_all add: blank_zone_def)
  ultimately show ?thesis
    using shared_spec [OF room.ngx_env_axioms, of blank_zone] by (force split: if_splits)
qed

text \<open>C37: Growing a tag keeps its older keys only while there are other tags to evict. An insert for
  a tag that the index has, when it succeeds, has evicted some number of tags: as long as that is
  not all of them, the tag keeps its keys and has the new one; when it is all of them, the tag
  itself was evicted and is back with the new key alone.\<close>

theorem insert_may_drop_grown_tag:
  assumes "ngx_env N ring map_ok" "index_ok N ring map_ok ti ps"
    and "map_of (index_view ti ps) tag = Some ks"
    and "index_insert N tag key (ti, a) = Some (Inr u, ti', a')"
  shows "\<exists>m ps'. m < EVICT_ATTEMPTS \<and> m \<le> length ps \<and> ti_evicted ti' = ti_evicted ti + of_nat m
    \<and> index_ok N ring map_ok ti' ps'
    \<and> (if m = length ps then index_view ti' ps' = [(tag, [key])]
       else map_of (index_view ti' ps') tag = Some (add_key key ks))"
proof -
  have L: "lru_ok (index_view ti ps)" by (rule index_ok_lru [OF assms(2)])
  then have "tag \<noteq> []" "length tag \<le> MAX_TAG_LEN"
    using map_of_SomeD [OF assms(3)] by (auto simp: lru_ok_def)
  then obtain ps' m where "index_ok N ring map_ok ti' ps'" "ti_evicted ti' = ti_evicted ti + of_nat m"
    "insert_result EVICT_ATTEMPTS tag key (lru_touch tag (index_view ti ps)) m (Inr u) (index_view ti' ps')"
    using ngx_env.insert_ok [OF assms(1,2), of tag key a] assms(4) by fastforce
  then show ?thesis using insert_result_grown [OF L assms(3)] by fastforce
qed

text \<open>On a pool with four free cells the second key of the only tag needs room, and the tag goes.\<close>

lemmas attempts = EVICT_ATTEMPTS_def
  insert_attempts.simps(2) [of _ "pred_numeral k" for k, folded numeral_eq_Suc]

definition tight_zone :: "(cells, ref_map, dll) zone" where
  "tight_zone = (case zone_insert ref_ngx [97] (demo_key 1) (ref_zone 4) of
     Some (r, z) \<Rightarrow> z | None \<Rightarrow> ref_zone 4)"

lemma tight_zone_rel: "zone_rel ref_ngx dll_ring ref_map_ok tight_zone [([97], [demo_key 1])]"
proof -
  obtain r z L m where z: "zone_insert ref_ngx [97] (demo_key 1) (ref_zone 4) = Some (r, z)"
    "zone_rel ref_ngx dll_ring ref_map_ok z L"
    "insert_result EVICT_ATTEMPTS [97] (demo_key 1) (lru_touch [97] []) m r L"
    using ref.zone_insert_rel [OF ref_zone_rel [of 4], of "[97]" "demo_key 1"] by (auto simp: MAX_TAG_LEN_def)
  moreover have "\<exists>z. zone_insert ref_ngx [97] (demo_key 1) (ref_zone 4) = Some (Inr (), z)"
    by (simp add: ref_eval zone_insert_def locked_def index_insert_def create_def attempts MAX_TAG_LEN_def Let_def)
  ultimately have "L = [([97], [demo_key 1])]"
    by (auto simp: insert_result_def lru_touch_def lru_record_def)
  then show ?thesis using z(1,2) by (simp add: tight_zone_def)
qed

lemma tight_zone_evicts:
  "case zone_insert ref_ngx [97] (demo_key 2) tight_zone of
     Some (Inr u, z) \<Rightarrow> ti_evicted (the (z_data z)) = ti_evicted (the (z_data tight_zone)) + 1
   | _ \<Rightarrow> False"
proof -
  have cap: "\<not> MAX_KEYS_PER_TAG \<le> Suc 0" by (simp add: MAX_KEYS_PER_TAG_def)
  have keys: "demo_key 1 \<noteq> demo_key 2" by (simp add: demo_key_def)
  show ?thesis
    by (simp add: tight_zone_def ref_eval zone_insert_def locked_def index_insert_def append_key_def
        create_def touch_def evict_def attempts cap keys keys [symmetric] MAX_TAG_LEN_def Let_def)
qed

theorem insert_may_drop_grown_tag_witness:
  "\<exists>ti ti' a a' ps ps'. index_insert ref_ngx [97] (demo_key 2) (ti, a) = Some (Inr (), ti', a')
     \<and> index_view ti ps = [([97], [demo_key 1])] \<and> index_view ti' ps' = [([97], [demo_key 2])]"
proof -
  obtain ti ps a where t: "z_data tight_zone = Some ti" "z_slab tight_zone = Some a"
    "index_ok ref_ngx dll_ring ref_map_ok ti ps" "index_view ti ps = [([97], [demo_key 1])]"
    using tight_zone_rel by (auto simp: zone_rel_def)
  obtain u ti' a' where i: "index_insert ref_ngx [97] (demo_key 2) (ti, a) = Some (Inr u, ti', a')"
    and ev: "ti_evicted ti' = ti_evicted ti + 1"
    using tight_zone_evicts t(1,2)
    by (auto simp: zone_insert_def locked_def split: option.splits prod.splits sum.splits)
  have len: "length ps = 1" using arg_cong [OF t(4), of length] by simp
  from insert_may_drop_grown_tag [OF ref.ngx_env_axioms t(3) _ i, of "[demo_key 1]"] t(4)
  obtain m ps' where "m \<le> length ps" "ti_evicted ti' = ti_evicted ti + of_nat m"
    and v: "if m = length ps then index_view ti' ps' = [([97], [demo_key 2])]
       else map_of (index_view ti' ps') [97] = Some (add_key (demo_key 2) [demo_key 1])" by auto
  then have "m = 1" using ev len by (cases m) auto
  then show ?thesis using v i t(4) len by auto
qed

end
