(* ===== verification/Module_Commands.thy ===== *)
theory Module_Commands
  imports Record_Filter
begin

text \<open>
  The module's table of directives (\<open>NGX_HTTP_XKEY_COMMANDS\<close> of \<open>src/lib.rs\<close>) and what running a
  directive through it does. NGINX looks a directive up by its name and calls its handler when
  the context and the number of arguments fit the command's type; \<open>set_flag_slot\<close> is
  \<open>ngx_conf_set_flag_slot\<close>. The lemmas show that the arguments the table admits are the ones
  the handlers index, so that no handler panics.
\<close>

section \<open>The table\<close>

datatype conf_context = MainContext | ServerContext | LocationContext
datatype conf_arity = Take1 | Take1_or_2 | TakeFlag | NoArgs
datatype conf_offset = MainConf | LocConf
datatype setter = SetZone | SetHeader | SetPurge | SetFallback | SetStatusHandler

record command =
  cmd_name :: bytes
  cmd_contexts :: "conf_context list"
  cmd_arity :: conf_arity
  cmd_set :: setter
  cmd_conf :: conf_offset

definition commands :: "command list" where
  "commands =
     [\<lparr>cmd_name = bytes_of ''xkey_zone'', cmd_contexts = [MainContext], cmd_arity = Take1_or_2,
       cmd_set = SetZone, cmd_conf = MainConf\<rparr>,
      \<lparr>cmd_name = bytes_of ''xkey_header'', cmd_contexts = [MainContext], cmd_arity = Take1,
       cmd_set = SetHeader, cmd_conf = MainConf\<rparr>,
      \<lparr>cmd_name = bytes_of ''xkey_purge'', cmd_contexts = [LocationContext], cmd_arity = Take1,
       cmd_set = SetPurge, cmd_conf = LocConf\<rparr>,
      \<lparr>cmd_name = bytes_of ''xkey_purge_fallback'',
       cmd_contexts = [MainContext, ServerContext, LocationContext], cmd_arity = TakeFlag,
       cmd_set = SetFallback, cmd_conf = LocConf\<rparr>,
      \<lparr>cmd_name = bytes_of ''xkey_status'', cmd_contexts = [LocationContext], cmd_arity = NoArgs,
       cmd_set = SetStatusHandler, cmd_conf = LocConf\<rparr>]"

text \<open>The number of words, the directive's name included, that a command's type admits.\<close>

definition arity_admits :: "conf_arity \<Rightarrow> nat \<Rightarrow> bool" where
  "arity_admits a n \<longleftrightarrow>
     (case a of Take1 \<Rightarrow> n = 2 | Take1_or_2 \<Rightarrow> n = 2 \<or> n = 3 | TakeFlag \<Rightarrow> n = 2 | NoArgs \<Rightarrow> n = 1)"

definition find_command :: "conf_context \<Rightarrow> bytes list \<Rightarrow> command option" where
  "find_command ctx args =
     List.find (\<lambda>c. args \<noteq> [] \<and> cmd_name c = hd args \<and> ctx \<in> set (cmd_contexts c)
                    \<and> arity_admits (cmd_arity c) (length args)) commands"

section \<open>Running a directive\<close>

text \<open>
  The configuration that a block's directives fill in. The two records exist from the moment
  the block is entered, with their defaults.
\<close>

record conf_state =
  cs_main :: main_conf
  cs_loc :: loc_conf
  cs_handler :: "content_handler option"
  cs_cycle :: cycle

definition conf_start :: "cycle \<Rightarrow> conf_state" where
  "conf_start cy =
     \<lparr>cs_main = main_conf_default, cs_loc = loc_conf_default, cs_handler = None, cs_cycle = cy\<rparr>"

definition run_setter ::
  "conf_env \<Rightarrow> (bytes list \<Rightarrow> int \<Rightarrow> bool \<times> int) \<Rightarrow> setter \<Rightarrow> bytes list \<Rightarrow> conf_state \<Rightarrow>
   (bool \<times> conf_state) option" where
  "run_setter E set_flag_slot x args s =
     (case x of
        SetZone \<Rightarrow>
          (case xkey_zone E args (cs_main s, cs_cycle s) of
             None \<Rightarrow> None
           | Some (ok, m, cy) \<Rightarrow> Some (ok, s\<lparr>cs_main := m, cs_cycle := cy\<rparr>))
      | SetHeader \<Rightarrow>
          (case xkey_header args (cs_main s) of
             None \<Rightarrow> None
           | Some (ok, m) \<Rightarrow> Some (ok, s\<lparr>cs_main := m\<rparr>))
      | SetPurge \<Rightarrow>
          (case xkey_purge E args (cs_loc s, cs_handler s, cs_cycle s) of
             None \<Rightarrow> None
           | Some (ok, l, h, cy) \<Rightarrow> Some (ok, s\<lparr>cs_loc := l, cs_handler := h, cs_cycle := cy\<rparr>))
      | SetFallback \<Rightarrow>
          (case set_flag_slot args (fallback (cs_loc s)) of
             (ok, v) \<Rightarrow> Some (ok, s\<lparr>cs_loc := (cs_loc s)\<lparr>fallback := v\<rparr>\<rparr>))
      | SetStatusHandler \<Rightarrow>
          (case xkey_status (cs_handler s) of (ok, h) \<Rightarrow> Some (ok, s\<lparr>cs_handler := h\<rparr>)))"

text \<open>A block's directives in order, up to the first that fails.\<close>

fun run_directives ::
  "conf_env \<Rightarrow> (bytes list \<Rightarrow> int \<Rightarrow> bool \<times> int) \<Rightarrow> (conf_context \<times> bytes list) list \<Rightarrow>
   conf_state \<Rightarrow> (bool \<times> conf_state) option" where
  "run_directives E f [] s = Some (True, s)"
| "run_directives E f ((ctx, args) # ds) s =
     (case find_command ctx args of
        None \<Rightarrow> Some (False, s)
      | Some c \<Rightarrow>
          (case run_setter E f (cmd_set c) args s of
             None \<Rightarrow> None
           | Some (ok, s') \<Rightarrow> if ok then run_directives E f ds s' else Some (False, s')))"

text \<open>The module's \<open>postconfiguration\<close>.\<close>

definition postconfiguration :: "'f \<Rightarrow> 'f filters \<Rightarrow> int \<times> 'f filters" where
  "postconfiguration f c = install_filter f c"

section \<open>No directive panics\<close>

text \<open>What the handlers rely on: a zone that was added is there, and the others stay.\<close>

locale conf_laws =
  fixes E :: conf_env
  assumes added: "shared_memory_add E n sz ow cy = (Some z, cy') \<Longrightarrow> cy' z \<noteq> None"
begin

lemma find_command_args:
  "find_command ctx args = Some c \<Longrightarrow> cmd_set c \<in> {SetZone, SetHeader, SetPurge} \<Longrightarrow> 2 \<le> length args"
  by (auto simp: find_command_def commands_def arity_admits_def split: if_splits)

lemma zone_args_some: "2 \<le> length args \<Longrightarrow> xkey_zone E args (m, cy) \<noteq> None"
  using added
  by (auto simp: xkey_zone_def Let_def split: option.splits prod.splits) (metis option.distinct(1))

lemma run_setter_total:
  "(x \<in> {SetZone, SetHeader, SetPurge} \<Longrightarrow> 2 \<le> length args) \<Longrightarrow> run_setter E f x args s \<noteq> None"
  using zone_args_some [of args "cs_main s" "cs_cycle s"]
  by (cases x) (auto simp: run_setter_def xkey_header_def xkey_purge_def xkey_status_def
      split: option.splits prod.splits if_splits)

lemma run_directives_total: "run_directives E f ds s \<noteq> None"
proof (induction ds arbitrary: s)
  case (Cons d ds)
  obtain ctx args where d: "d = (ctx, args)" by (cases d)
  show ?case
  proof (cases "find_command ctx args")
    case (Some c)
    then obtain ok s' where "run_setter E f (cmd_set c) args s = Some (ok, s')"
      using run_setter_total [of "cmd_set c" args f s] find_command_args [OF Some] by auto
    then show ?thesis using Cons.IH [of s'] Some d by (cases ok) simp_all
  qed (simp add: d)
qed simp

end

text \<open>A location has the purge handler exactly when it has a cache zone, or the status handler.\<close>

definition handler_ok :: "conf_state \<Rightarrow> bool" where
  "handler_ok s \<longleftrightarrow> (cs_handler s = Some PurgeHandler \<longrightarrow> cache_zone (cs_loc s) \<noteq> None)"

lemma run_setter_handler:
  "run_setter E f x args s = Some (ok, s') \<Longrightarrow> handler_ok s \<Longrightarrow> ok \<Longrightarrow> handler_ok s'"
  by (cases x) (auto simp: run_setter_def xkey_purge_def xkey_status_def handler_ok_def Let_def
      split: option.splits prod.splits if_splits)

lemma run_directives_handler:
  "run_directives E f ds s = Some (True, s') \<Longrightarrow> handler_ok s \<Longrightarrow> handler_ok s'"
proof (induction ds arbitrary: s)
  case (Cons d ds)
  obtain ctx args where d: "d = (ctx, args)" by (cases d)
  obtain c s1 where "find_command ctx args = Some c" "run_setter E f (cmd_set c) args s = Some (True, s1)"
    "run_directives E f ds s1 = Some (True, s')"
    using Cons.prems(1) by (auto simp: d split: option.splits if_splits)
  then show ?case using Cons.IH Cons.prems(2) run_setter_handler by blast
qed simp

end
