(* ===== verification/Module_Setup.thy ===== *)
theory Module_Setup
  imports Module_Commands
begin

text \<open>
  The module as NGINX sees it, and its part in reading a configuration (\<open>src/lib.rs\<close>): the
  descriptor \<open>ngx_http_xkey_module\<close> with its context of callbacks and its table of directives.
  A record field holds the callback itself, None where the source has None.

  How NGINX drives the callbacks is an environment: \<open>issues\<close> says what it may do next (open a
  block, hand a directive to a block, let the proxy module declare a cache zone, end the
  parsing, merge a block after the one around it, call \<open>postconfiguration\<close> when all are merged),
  and the results hold for every order it may choose. \<open>setup_step\<close> is what the module does then.
\<close>

section \<open>The module's descriptor\<close>

record 'f http_module =
  hm_preconfiguration :: "('f filters \<Rightarrow> int \<times> 'f filters) option"
  hm_postconfiguration :: "('f filters \<Rightarrow> int \<times> 'f filters) option"
  hm_create_main_conf :: "(unit \<Rightarrow> main_conf) option"
  hm_init_main_conf :: "(main_conf \<Rightarrow> bool \<times> main_conf) option"
  hm_create_srv_conf :: "(unit \<Rightarrow> unit) option"
  hm_merge_srv_conf :: "(unit \<Rightarrow> unit \<Rightarrow> bool \<times> unit) option"
  hm_create_loc_conf :: "(unit \<Rightarrow> loc_conf) option"
  hm_merge_loc_conf :: "(loc_conf \<Rightarrow> loc_conf \<Rightarrow> bool \<times> loc_conf) option"

text \<open>
  The callbacks the traits of the \<open>ngx\<close> crate give the module: a configuration is created with
  its \<open>Default\<close>, and \<open>merge_loc_conf\<close> is \<open>NGX_CONF_OK\<close> exactly when \<open>merge\<close> is \<open>Ok\<close>, which it
  always is.
\<close>

definition create_main_conf :: "unit \<Rightarrow> main_conf" where
  "create_main_conf _ = main_conf_default"

definition create_loc_conf :: "unit \<Rightarrow> loc_conf" where
  "create_loc_conf _ = loc_conf_default"

definition merge_loc_conf :: "loc_conf \<Rightarrow> loc_conf \<Rightarrow> bool \<times> loc_conf" where
  "merge_loc_conf prev c = (True, merge prev c)"

definition module_ctx :: "'f \<Rightarrow> 'f http_module" where
  "module_ctx f =
     \<lparr>hm_preconfiguration = None,
      hm_postconfiguration = Some (postconfiguration f),
      hm_create_main_conf = Some create_main_conf,
      hm_init_main_conf = None,
      hm_create_srv_conf = None,
      hm_merge_srv_conf = None,
      hm_create_loc_conf = Some create_loc_conf,
      hm_merge_loc_conf = Some merge_loc_conf\<rparr>"

datatype module_type = HttpModule

record 'f ngx_module =
  md_ctx :: "'f http_module"
  md_commands :: "command list"
  md_type :: module_type

definition ngx_http_xkey_module :: "'f \<Rightarrow> 'f ngx_module" where
  "ngx_http_xkey_module f =
     \<lparr>md_ctx = module_ctx f, md_commands = commands, md_type = HttpModule\<rparr>"

section \<open>Reading a configuration\<close>

text \<open>
  A block of the configuration, the \<open>http\<close> block first: where it stands, the block around it, its
  location configuration, the content handler of its location, whether it has been merged.
\<close>

record block =
  b_context :: conf_context
  b_parent :: nat
  b_loc :: loc_conf
  b_handler :: "content_handler option"
  b_merged :: bool

datatype phase = Parsing | Merging | Configured

record 'f reading =
  su_phase :: phase
  su_main :: main_conf
  su_blocks :: "block list"
  su_cycle :: cycle
  su_filters :: "'f filters"

datatype setup_event =
    OpenBlock conf_context nat
  | RunDirective nat "bytes list"
  | CacheZone bytes usize
  | ParseEnd
  | MergeBlock nat
  | PostConfiguration

text \<open>A setup that goes on, a configuration that NGINX rejects, a panic.\<close>

datatype 'f progress = Going "'f reading" | Rejected | Panic

definition open_block :: "'f http_module \<Rightarrow> conf_context \<Rightarrow> nat \<Rightarrow> block option" where
  "open_block m ctx p =
     map_option (\<lambda>mk. \<lparr>b_context = ctx, b_parent = p, b_loc = mk (), b_handler = None,
                           b_merged = False\<rparr>) (hm_create_loc_conf m)"

definition setup_start :: "'f ngx_module \<Rightarrow> cycle \<Rightarrow> 'f filters \<Rightarrow> 'f reading option" where
  "setup_start md cy fs =
     (case (hm_create_main_conf (md_ctx md), open_block (md_ctx md) MainContext 0) of
        (Some mk, Some b) \<Rightarrow>
          Some \<lparr>su_phase = Parsing, su_main = mk (), su_blocks = [b], su_cycle = cy,
                su_filters = fs\<rparr>
      | _ \<Rightarrow> None)"

text \<open>What NGINX may do next.\<close>

definition merge_ready :: "block list \<Rightarrow> nat \<Rightarrow> bool" where
  "merge_ready bs i \<longleftrightarrow>
     0 < i \<and> i < length bs \<and> \<not> b_merged (bs ! i)
     \<and> (b_parent (bs ! i) = 0 \<or> b_merged (bs ! b_parent (bs ! i)))"

fun issues :: "'f reading \<Rightarrow> setup_event \<Rightarrow> bool" where
  "issues s (OpenBlock ctx p) \<longleftrightarrow> su_phase s = Parsing \<and> p < length (su_blocks s)"
| "issues s (RunDirective i args) \<longleftrightarrow> su_phase s = Parsing \<and> i < length (su_blocks s)"
| "issues s (CacheZone name sz) \<longleftrightarrow> su_phase s = Parsing"
| "issues s ParseEnd \<longleftrightarrow> su_phase s = Parsing"
| "issues s (MergeBlock i) \<longleftrightarrow> su_phase s = Merging \<and> merge_ready (su_blocks s) i"
| "issues s PostConfiguration \<longleftrightarrow> su_phase s = Merging \<and> list_all b_merged (tl (su_blocks s))"

text \<open>
  A directive of a block runs on the \<open>http\<close> block's main configuration and on the block's own
  location configuration.
\<close>

definition block_conf :: "'f reading \<Rightarrow> nat \<Rightarrow> conf_state" where
  "block_conf s i =
     \<lparr>cs_main = su_main s, cs_loc = b_loc (su_blocks s ! i), cs_handler = b_handler (su_blocks s ! i),
      cs_cycle = su_cycle s\<rparr>"

definition put_block :: "nat \<Rightarrow> conf_state \<Rightarrow> 'f reading \<Rightarrow> 'f reading" where
  "put_block i cs s =
     s\<lparr>su_main := cs_main cs, su_cycle := cs_cycle cs,
       su_blocks := (su_blocks s)[i := (su_blocks s ! i)\<lparr>b_loc := cs_loc cs, b_handler := cs_handler cs\<rparr>]\<rparr>"

definition merge_block :: "'f http_module \<Rightarrow> nat \<Rightarrow> block list \<Rightarrow> bool \<times> block list" where
  "merge_block m i bs =
     (let b = bs ! i in
      case hm_merge_loc_conf m of
        None \<Rightarrow> (True, bs[i := b\<lparr>b_merged := True\<rparr>])
      | Some mrg \<Rightarrow>
          (case mrg (b_loc (bs ! b_parent b)) (b_loc b) of
             (ok, c) \<Rightarrow> (ok, bs[i := b\<lparr>b_loc := c, b_merged := True\<rparr>])))"

definition post_conf :: "'f http_module \<Rightarrow> 'f filters \<Rightarrow> int \<times> 'f filters" where
  "post_conf m fs = (case hm_postconfiguration m of None \<Rightarrow> (NGX_OK, fs) | Some post \<Rightarrow> post fs)"

fun setup_step ::
  "conf_env \<Rightarrow> (bytes list \<Rightarrow> int \<Rightarrow> bool \<times> int) \<Rightarrow> 'f ngx_module \<Rightarrow> setup_event \<Rightarrow> 'f reading \<Rightarrow>
   'f progress" where
  "setup_step E f md (OpenBlock ctx p) s =
     (case open_block (md_ctx md) ctx p of
        None \<Rightarrow> Rejected
      | Some b \<Rightarrow> Going (s\<lparr>su_blocks := su_blocks s @ [b]\<rparr>))"
| "setup_step E f md (RunDirective i args) s =
     (case find_command (b_context (su_blocks s ! i)) args of
        None \<Rightarrow> Rejected
      | Some c \<Rightarrow>
          (case run_setter E f (cmd_set c) args (block_conf s i) of
             None \<Rightarrow> Panic
           | Some (ok, cs) \<Rightarrow> if ok then Going (put_block i cs s) else Rejected))"
| "setup_step E f md (CacheZone name sz) s =
     (case shared_memory_add E name sz ProxyModule (su_cycle s) of
        (None, cy) \<Rightarrow> Rejected
      | (Some z, cy) \<Rightarrow> Going (s\<lparr>su_cycle := cy\<rparr>))"
| "setup_step E f md ParseEnd s = Going (s\<lparr>su_phase := Merging\<rparr>)"
| "setup_step E f md (MergeBlock i) s =
     (case merge_block (md_ctx md) i (su_blocks s) of
        (ok, bs) \<Rightarrow> if ok then Going (s\<lparr>su_blocks := bs\<rparr>) else Rejected)"
| "setup_step E f md PostConfiguration s =
     (case post_conf (md_ctx md) (su_filters s) of
        (rc, fs) \<Rightarrow>
          if rc = NGX_OK then Going (s\<lparr>su_filters := fs, su_phase := Configured\<rparr>) else Rejected)"

text \<open>
  A whole reading: NGINX's events in order, up to the first that is refused. \<open>valid\<close> says that
  each is one that NGINX may issue there.
\<close>

fun setup_run ::
  "conf_env \<Rightarrow> (bytes list \<Rightarrow> int \<Rightarrow> bool \<times> int) \<Rightarrow> 'f ngx_module \<Rightarrow> setup_event list \<Rightarrow>
   'f progress \<Rightarrow> 'f progress" where
  "setup_run E f md (ev # evs) (Going s) = setup_run E f md evs (setup_step E f md ev s)"
| "setup_run E f md evs p = p"

fun valid ::
  "conf_env \<Rightarrow> (bytes list \<Rightarrow> int \<Rightarrow> bool \<times> int) \<Rightarrow> 'f ngx_module \<Rightarrow> setup_event list \<Rightarrow>
   'f progress \<Rightarrow> bool" where
  "valid E f md (ev # evs) (Going s) \<longleftrightarrow>
     issues s ev \<and> valid E f md evs (setup_step E f md ev s)"
| "valid E f md evs p \<longleftrightarrow> True"

end
