(* ===== verification/Setup_Correct.thy ===== *)
theory Setup_Correct
  imports Module_Setup
begin

text \<open>
  What a configuration that NGINX accepts looks like (\<open>typed\<close>), in whatever order it issued its
  events: every pointer to a zone leads to a zone of the module that the code expects behind it,
  a purge location has its cache, a merged flag is 0 or 1. The locale \<open>setup_laws\<close> holds what
  the code relies on of \<open>ngx_shared_memory_add\<close> and \<open>ngx_conf_set_flag_slot\<close>.
\<close>

section \<open>Well-typed configurations\<close>

text \<open>The pointer to the tag index: a zone of this module that is set up for \<open>zone_init\<close>, and the
  only zone that is.\<close>

definition zone_typed :: "main_conf \<Rightarrow> cycle \<Rightarrow> bool" where
  "zone_typed m cy \<longleftrightarrow>
     (\<forall>z. shm_zone m = Some z \<longrightarrow>
        (\<exists>zone. cy z = Some zone \<and> sz_owner zone = XkeyModule \<and> sz_init zone = Some ZoneInit
           \<and> sz_data zone))
     \<and> (\<forall>z zone. cy z = Some zone \<longrightarrow> sz_init zone \<noteq> None \<longrightarrow> shm_zone m = Some z)"

text \<open>The pointer to a cache: a zone of the proxy module, in a location that purges.\<close>

definition cache_typed :: "block \<Rightarrow> cycle \<Rightarrow> bool" where
  "cache_typed b cy \<longleftrightarrow>
     (case cache_zone (b_loc b) of
        None \<Rightarrow> b_handler b \<noteq> Some PurgeHandler
      | Some z \<Rightarrow> map_option sz_owner (cy z) = Some ProxyModule)
     \<and> (b_context b = LocationContext \<or> b_handler b = None \<and> cache_zone (b_loc b) = None)"

definition flag_typed :: "block \<Rightarrow> bool" where
  "flag_typed b \<longleftrightarrow>
     fallback (b_loc b) \<in> {0, 1} \<or> fallback (b_loc b) = NGX_CONF_UNSET \<and> \<not> b_merged b"

definition block_typed :: "cycle \<Rightarrow> block \<Rightarrow> bool" where
  "block_typed cy b \<longleftrightarrow> cache_typed b cy \<and> flag_typed b"

text \<open>The \<open>http\<close> block comes first, every other inside an earlier one.\<close>

definition nested :: "block list \<Rightarrow> bool" where
  "nested bs \<longleftrightarrow>
     bs \<noteq> [] \<and> b_parent (bs ! 0) = 0 \<and> (\<forall>i<length bs. 0 < i \<longrightarrow> b_parent (bs ! i) < i)"

definition typed :: "'f \<Rightarrow> 'f filters \<Rightarrow> 'f reading \<Rightarrow> bool" where
  "typed flt fs s \<longleftrightarrow>
     zone_typed (su_main s) (su_cycle s) \<and> nested (su_blocks s)
     \<and> list_all (block_typed (su_cycle s)) (su_blocks s)
     \<and> (su_phase s = Parsing \<longrightarrow> list_all (\<lambda>b. \<not> b_merged b) (su_blocks s))
     \<and> (if su_phase s = Configured
        then list_all b_merged (tl (su_blocks s)) \<and> su_filters s = snd (install_filter flt fs)
        else su_filters s = fs)"

section \<open>What the code relies on\<close>

text \<open>A zone keeps its owner and its handler while others are added.\<close>

definition cycle_le :: "cycle \<Rightarrow> cycle \<Rightarrow> bool" where
  "cycle_le cy cy' \<longleftrightarrow>
     (\<forall>z zone. cy z = Some zone \<longrightarrow> map_option sz_owner (cy' z) = Some (sz_owner zone))"

lemma cycle_le_refl: "cycle_le cy cy"
  by (simp add: cycle_le_def)

lemma cycle_leD:
  "cycle_le cy cy' \<Longrightarrow> map_option sz_owner (cy z) = Some ow \<Longrightarrow> map_option sz_owner (cy' z) = Some ow"
  unfolding cycle_le_def by fastforce

lemma block_typed_le: "block_typed cy b \<Longrightarrow> cycle_le cy cy' \<Longrightarrow> block_typed cy' b"
  using cycle_leD [of cy cy' _ ProxyModule]
  by (simp add: block_typed_def cache_typed_def del: map_option_eq_Some split: option.splits)

lemma blocks_typed_le:
  "list_all (block_typed cy) bs \<Longrightarrow> cycle_le cy cy' \<Longrightarrow> list_all (block_typed cy') bs"
  by (auto simp: list_all_iff intro: block_typed_le)

locale setup_laws =
  fixes E :: conf_env and f :: "bytes list \<Rightarrow> int \<Rightarrow> bool \<times> int"
  assumes own: "shared_memory_add E n sz ow cy = (Some z, cy') \<Longrightarrow>
      map_option sz_owner (cy' z) = Some ow"
    and kept: "shared_memory_add E n sz ow cy = (r, cy') \<Longrightarrow> cy x = Some zone \<Longrightarrow>
      \<exists>zone'. cy' x = Some zone' \<and> sz_owner zone' = sz_owner zone \<and> sz_init zone' = sz_init zone
        \<and> sz_data zone' = sz_data zone"
    and fresh: "shared_memory_add E n sz ow cy = (r, cy') \<Longrightarrow> cy x = None \<Longrightarrow> cy' x = Some zone \<Longrightarrow>
      sz_init zone = None"
    and flag: "f args v = (True, v') \<Longrightarrow> v' = 0 \<or> v' = 1"
begin

sublocale conf_laws E
  by unfold_locales (use own in fastforce)

lemma add_le: "shared_memory_add E n sz ow cy = (r, cy') \<Longrightarrow> cycle_le cy cy'"
  unfolding cycle_le_def using kept by fastforce

lemma add_typed:
  assumes "shared_memory_add E n sz ow cy = (r, cy')" "zone_typed m cy"
  shows "zone_typed m cy'"
proof -
  have "\<exists>zone. cy z = Some zone \<and> sz_init zone \<noteq> None"
    if "cy' z = Some zone'" "sz_init zone' \<noteq> None" for z zone'
    proof (cases "cy z")
    case None
    then show ?thesis using that fresh [OF assms(1)] by metis
  next
    case (Some zone)
    then show ?thesis using that kept [OF assms(1) Some] by auto
  qed
  then show ?thesis
    using assms(2) kept [OF assms(1)] unfolding zone_typed_def by metis
qed

lemma xkey_zone_typed:
  assumes "xkey_zone E args (m, cy) = Some (True, m', cy')" "zone_typed m cy"
  shows "zone_typed m' cy' \<and> cycle_le cy cy'"
proof -
  obtain n sz z zone cy1 where none: "shm_zone m = None"
    and add: "shared_memory_add E n sz XkeyModule cy = (Some z, cy1)" and z: "cy1 z = Some zone"
    and m': "m' = m\<lparr>shm_zone := Some z\<rparr>"
    and cy': "cy' = cy1(z \<mapsto> zone\<lparr>sz_init := Some ZoneInit, sz_data := True\<rparr>)"
    using assms(1)
    by (auto simp: xkey_zone_def Let_def split: if_splits option.splits prod.splits)
  have "zone_typed m cy1" by (rule add_typed [OF add assms(2)])
  then have "zone_typed m' cy'"
    using none own [OF add] z by (auto simp: zone_typed_def m' cy')
  moreover have "cycle_le cy cy'"
    using add_le [OF add] z unfolding cycle_le_def cy' by fastforce
  ultimately show ?thesis by blast
qed

text \<open>A directive keeps the types of the main configuration, of its own block and of the others.\<close>

definition loc_typed :: "conf_context \<Rightarrow> conf_state \<Rightarrow> bool" where
  "loc_typed ctx cs \<longleftrightarrow>
     block_typed (cs_cycle cs)
       \<lparr>b_context = ctx, b_parent = 0, b_loc = cs_loc cs, b_handler = cs_handler cs, b_merged = False\<rparr>"

lemmas loc_typed_defs = loc_typed_def block_typed_def cache_typed_def flag_typed_def

lemma run_setter_typed:
  assumes "run_setter E f x args cs = Some (True, cs')" "zone_typed (cs_main cs) (cs_cycle cs)"
    and "loc_typed ctx cs" "x \<in> {SetPurge, SetStatusHandler} \<longrightarrow> ctx = LocationContext"
  shows "zone_typed (cs_main cs') (cs_cycle cs') \<and> cycle_le (cs_cycle cs) (cs_cycle cs')
    \<and> loc_typed ctx cs'"
proof (cases x)
  case SetZone
  then have z: "xkey_zone E args (cs_main cs, cs_cycle cs) = Some (True, cs_main cs', cs_cycle cs')"
    and l: "cs_loc cs' = cs_loc cs" "cs_handler cs' = cs_handler cs"
    using assms(1) by (auto simp: run_setter_def split: option.splits)
  show ?thesis
    using xkey_zone_typed [OF z assms(2)] assms(3) block_typed_le unfolding loc_typed_def l by blast
next
  case SetHeader
  then show ?thesis
    using assms cycle_le_refl
    by (auto simp: run_setter_def xkey_header_def zone_typed_def loc_typed_def split: if_splits)
next
  case SetPurge
  then obtain z cy' where add: "shared_memory_add E (args ! 1) 0 ProxyModule (cs_cycle cs) = (Some z, cy')"
    and cs': "cs' = cs\<lparr>cs_loc := (cs_loc cs)\<lparr>cache_zone := Some z\<rparr>, cs_handler := Some PurgeHandler,
        cs_cycle := cy'\<rparr>"
    using assms(1) by (auto simp: run_setter_def xkey_purge_def Let_def split: option.splits if_splits prod.splits)
  have "ctx = LocationContext" using assms(4) SetPurge by simp
  then show ?thesis
    using own [OF add] add_le [OF add] add_typed [OF add assms(2)] assms(3)
    by (auto simp: cs' loc_typed_defs)
next
  case SetFallback
  then obtain v where "f args (fallback (cs_loc cs)) = (True, v)"
    and cs': "cs' = cs\<lparr>cs_loc := (cs_loc cs)\<lparr>fallback := v\<rparr>\<rparr>"
    using assms(1) by (auto simp: run_setter_def split: prod.splits)
  then show ?thesis
    using assms(2,3) flag cycle_le_refl by (auto simp: loc_typed_defs split: option.splits)
next
  case SetStatusHandler
  then have "ctx = LocationContext" "cs' = cs\<lparr>cs_handler := Some StatusHandler\<rparr>"
    using assms(1,4) by (auto simp: run_setter_def xkey_status_def)
  then show ?thesis
    using assms(2,3) cycle_le_refl by (auto simp: loc_typed_defs split: option.splits)
qed

lemma find_command_location:
  "find_command ctx args = Some c \<Longrightarrow> cmd_set c \<in> {SetPurge, SetStatusHandler} \<Longrightarrow>
   ctx = LocationContext"
  by (auto simp: find_command_def commands_def split: if_splits)

text \<open>Every event keeps the configuration typed.\<close>

lemma typed_directive:
  assumes "typed flt fs s" "su_phase s = Parsing" "i < length (su_blocks s)"
    and "find_command (b_context (su_blocks s ! i)) args = Some c"
    and "run_setter E f (cmd_set c) args (block_conf s i) = Some (True, cs)"
  shows "typed flt fs (put_block i cs s)"
proof -
  let ?b = "su_blocks s ! i"
  note t = assms(1) [unfolded typed_def]
  have b: "block_typed (su_cycle s) ?b" using t assms(3) by (simp add: list_all_length)
  then have l: "loc_typed (b_context ?b) (block_conf s i)"
    by (auto simp: loc_typed_defs block_conf_def split: option.splits)
  have "zone_typed (cs_main cs) (cs_cycle cs) \<and> cycle_le (su_cycle s) (cs_cycle cs)
      \<and> loc_typed (b_context ?b) cs"
    using run_setter_typed [OF assms(5) _ l] t find_command_location [OF assms(4)]
    by (auto simp: block_conf_def)
  moreover have "\<not> b_merged ?b" using t assms(2,3) by (simp add: list_all_length)
  ultimately have "block_typed (cs_cycle cs) (?b\<lparr>b_loc := cs_loc cs, b_handler := cs_handler cs\<rparr>)"
    and new: "zone_typed (cs_main cs) (cs_cycle cs)" "list_all (block_typed (cs_cycle cs)) (su_blocks s)"
    using t blocks_typed_le by (auto simp: loc_typed_defs split: option.splits)
  then show ?thesis
    using t assms(2,3)
    by (auto simp: typed_def put_block_def nested_def nth_list_update list_all_length)
qed

lemma typed_merge:
  assumes "typed flt fs s" "su_phase s = Merging" "merge_ready (su_blocks s) i"
    and "merge_block (module_ctx flt) i (su_blocks s) = (True, bs)"
  shows "typed flt fs (s\<lparr>su_blocks := bs\<rparr>)"
proof -
  let ?b = "su_blocks s ! i" and ?p = "su_blocks s ! b_parent (su_blocks s ! i)"
  note t = assms(1) [unfolded typed_def]
  have i: "0 < i" "i < length (su_blocks s)" using assms(3) by (simp_all add: merge_ready_def)
  then have "b_parent ?b < length (su_blocks s)" using t by (fastforce simp: nested_def)
  then have "flag_typed ?p" "block_typed (su_cycle s) ?b"
    using t i by (simp_all add: list_all_length block_typed_def)
  then have "block_typed (su_cycle s) (?b\<lparr>b_loc := merge (b_loc ?p) (b_loc ?b), b_merged := True\<rparr>)"
    by (auto simp: block_typed_def cache_typed_def flag_typed_def merge_def NGX_CONF_UNSET_def
        split: option.splits)
  moreover have "bs = (su_blocks s)[i := ?b\<lparr>b_loc := merge (b_loc ?p) (b_loc ?b), b_merged := True\<rparr>]"
    using assms(4) by (simp add: merge_block_def module_ctx_def merge_loc_conf_def Let_def)
  ultimately show ?thesis
    using t assms(2) i by (auto simp: typed_def nested_def nth_list_update list_all_length)
qed

lemma typed_step:
  assumes "typed flt fs s" "issues s ev" "setup_step E f (ngx_http_xkey_module flt) ev s = Going s'"
  shows "typed flt fs s'"
proof (cases ev)
  case (OpenBlock ctx p)
  then have "s' = s\<lparr>su_blocks := su_blocks s @ [\<lparr>b_context = ctx, b_parent = p, b_loc = loc_conf_default,
      b_handler = None, b_merged = False\<rparr>]\<rparr>"
    using assms(3) by (simp add: open_block_def ngx_http_xkey_module_def module_ctx_def create_loc_conf_def)
  then show ?thesis
    using assms(1,2) OpenBlock
    by (auto simp: typed_def nested_def nth_append block_typed_def cache_typed_def flag_typed_def
        loc_conf_default_def less_Suc_eq)
next
  case (RunDirective i args)
  then obtain c cs where "find_command (b_context (su_blocks s ! i)) args = Some c"
    "run_setter E f (cmd_set c) args (block_conf s i) = Some (True, cs)" "s' = put_block i cs s"
    using assms(3) by (auto split: option.splits if_splits)
  then show ?thesis using typed_directive assms(1,2) RunDirective by fastforce
next
  case (CacheZone n sz)
  then obtain z cy where add: "shared_memory_add E n sz ProxyModule (su_cycle s) = (Some z, cy)"
    and s': "s' = s\<lparr>su_cycle := cy\<rparr>"
    using assms(3) by (auto split: prod.splits option.splits)
  show ?thesis
    using assms(1) add_typed [OF add] blocks_typed_le [OF _ add_le [OF add]]
    by (auto simp: typed_def s')
next
  case ParseEnd
  then show ?thesis using assms by (auto simp: typed_def)
next
  case (MergeBlock i)
  then obtain bs where "merge_block (module_ctx flt) i (su_blocks s) = (True, bs)" "s' = s\<lparr>su_blocks := bs\<rparr>"
    using assms(3) by (auto simp: ngx_http_xkey_module_def split: prod.splits if_splits)
  then show ?thesis using typed_merge assms(1,2) MergeBlock by fastforce
next
  case PostConfiguration
  then show ?thesis
    using assms
    by (auto simp: typed_def post_conf_def ngx_http_xkey_module_def module_ctx_def postconfiguration_def
        install_filter_def)
qed

text \<open>No event panics: the table admits only the argument counts that the handlers index.\<close>

lemma step_no_panic: "setup_step E f md ev s \<noteq> Panic"
proof (cases ev)
  case (RunDirective i args)
  have "run_setter E f (cmd_set c) args (block_conf s i) \<noteq> None"
    if "find_command (b_context (su_blocks s ! i)) args = Some c" for c
    using run_setter_total [of "cmd_set c" args f "block_conf s i"] find_command_args [OF that] by blast
  then show ?thesis using RunDirective by (auto split: option.splits)
qed (auto split: option.splits prod.splits)

end

lemma typed_start:
  "setup_start (ngx_http_xkey_module flt) cy fs = Some s \<Longrightarrow>
   \<forall>z zone. cy z = Some zone \<longrightarrow> sz_init zone = None \<Longrightarrow> typed flt fs s"
  by (auto simp: setup_start_def open_block_def ngx_http_xkey_module_def module_ctx_def
      create_main_conf_def create_loc_conf_def typed_def zone_typed_def nested_def block_typed_def
      cache_typed_def flag_typed_def main_conf_default_def loc_conf_default_def)

end
