(* ===== verification/Setup_Merge.thy ===== *)
theory Setup_Merge
  imports Setup_Correct
begin

text \<open>
  What the end of reading a configuration computes: whatever order NGINX merges the blocks in,
  each ends with the flag of the nearest block around it that sets one (\<open>inherited\<close>), and
  nothing else of the parsed configuration changes. No callback can reject at that point.
\<close>

section \<open>The reference\<close>

function inherited :: "block list \<Rightarrow> nat \<Rightarrow> int" where
  "inherited bs i =
     (if fallback (b_loc (bs ! i)) \<noteq> NGX_CONF_UNSET then fallback (b_loc (bs ! i))
      else if b_parent (bs ! i) < i then inherited bs (b_parent (bs ! i))
      else 1)"
  by pat_completeness auto
termination by (relation "measure snd") auto

declare inherited.simps [simp del]

definition resolve :: "block list \<Rightarrow> nat \<Rightarrow> block" where
  "resolve bs i =
     (bs ! i)\<lparr>b_loc := (b_loc (bs ! i))\<lparr>fallback := inherited bs i\<rparr>, b_merged := True\<rparr>"

definition resolved :: "'f \<Rightarrow> 'f reading \<Rightarrow> 'f reading" where
  "resolved flt s =
     s\<lparr>su_phase := Configured, su_filters := snd (install_filter flt (su_filters s)),
       su_blocks := map (\<lambda>i. if i = 0 then su_blocks s ! 0 else resolve (su_blocks s) i)
                      [0..<length (su_blocks s)]\<rparr>"

section \<open>Merging towards it\<close>

text \<open>Blocks on the way from \<open>bs\<close>: each is still as parsed or already resolved.\<close>

definition midway :: "block list \<Rightarrow> block list \<Rightarrow> bool" where
  "midway bs cs \<longleftrightarrow>
     length cs = length bs \<and> cs ! 0 = bs ! 0
     \<and> (\<forall>i<length bs. cs ! i = (if b_merged (cs ! i) then resolve bs i else bs ! i))"

lemma midway_merged: "midway bs cs \<Longrightarrow> i < length bs \<Longrightarrow> b_merged (cs ! i) \<Longrightarrow> cs ! i = resolve bs i"
  by (simp add: midway_def) metis

lemma resolve_simps [simp]:
  "b_parent (resolve bs i) = b_parent (bs ! i)" "b_merged (resolve bs i)"
  "fallback (b_loc (resolve bs i)) = inherited bs i"
  by (simp_all add: resolve_def)

lemma inherited_set: "inherited bs i \<noteq> NGX_CONF_UNSET"
proof (induction bs i rule: inherited.induct)
  case (1 bs i)
  then show ?case by (subst inherited.simps) (simp add: NGX_CONF_UNSET_def)
qed

text \<open>Merging a block after the one around it gives the reference value.\<close>

lemma merge_resolves:
  assumes "nested bs" "\<forall>b\<in>set bs. \<not> b_merged b" "midway bs cs" "merge_ready cs i"
  shows "(cs ! i)\<lparr>b_loc := merge (b_loc (cs ! b_parent (cs ! i))) (b_loc (cs ! i)), b_merged := True\<rparr>
    = resolve bs i"
proof -
  let ?p = "b_parent (bs ! i)"
  have i: "0 < i" "i < length bs" "\<not> b_merged (cs ! i)" "?p < i" and ci: "cs ! i = bs ! i"
    using assms by (auto simp: midway_def merge_ready_def nested_def)
  have "fallback (b_loc (cs ! ?p)) = (if ?p = 0 then fallback (b_loc (bs ! 0)) else inherited bs ?p)"
    using assms(3,4) i ci midway_merged [OF assms(3), of ?p] by (auto simp: midway_def merge_ready_def)
  moreover have "inherited bs 0 = (if fallback (b_loc (bs ! 0)) \<noteq> NGX_CONF_UNSET
      then fallback (b_loc (bs ! 0)) else 1)"
    by (subst inherited.simps) simp
  moreover have "inherited bs i = (if fallback (b_loc (bs ! i)) \<noteq> NGX_CONF_UNSET
      then fallback (b_loc (bs ! i)) else inherited bs ?p)"
    using i by (subst inherited.simps) simp
  ultimately have "merge (b_loc (cs ! ?p)) (b_loc (bs ! i)) = (b_loc (bs ! i))\<lparr>fallback := inherited bs i\<rparr>"
    using inherited_set [of bs ?p] by (auto simp: merge_def)
  then show ?thesis by (simp add: ci resolve_def)
qed

lemma midway_merge:
  assumes "nested bs" "\<forall>b\<in>set bs. \<not> b_merged b" "midway bs cs" "merge_ready cs i"
  shows "merge_block (module_ctx flt) i cs = (True, cs[i := resolve bs i])"
    and "midway bs (cs[i := resolve bs i])"
  using merge_resolves [OF assms] assms(3,4)
  by (auto simp: merge_block_def module_ctx_def merge_loc_conf_def Let_def midway_def merge_ready_def
      nth_list_update)

lemma midway_all:
  assumes "midway bs cs" "list_all b_merged (tl cs)" "bs \<noteq> []"
  shows "cs = map (\<lambda>i. if i = 0 then bs ! 0 else resolve bs i) [0..<length bs]"
proof (rule nth_equalityI)
  show "cs ! i = map (\<lambda>i. if i = 0 then bs ! 0 else resolve bs i) [0..<length bs] ! i"
    if "i < length cs" for i
  proof (cases i)
    case (Suc j)
    then have "b_merged (cs ! i)" using assms(2) that by (simp add: list_all_length nth_tl)
    then show ?thesis using assms(1) that Suc midway_merged [OF assms(1)] by (simp add: midway_def)
  qed (use assms in \<open>simp add: midway_def\<close>)
qed (use assms in \<open>simp add: midway_def\<close>)

section \<open>Runs of the merging phase\<close>

text \<open>A state of the merging phase that started from \<open>s\<close>.\<close>

definition merging_from :: "'f reading \<Rightarrow> 'f reading \<Rightarrow> bool" where
  "merging_from s s' \<longleftrightarrow> (\<exists>cs. midway (su_blocks s) cs \<and> s' = s\<lparr>su_blocks := cs\<rparr>)"

definition parsed :: "'f reading \<Rightarrow> bool" where
  "parsed s \<longleftrightarrow>
     su_phase s = Merging \<and> nested (su_blocks s) \<and> (\<forall>b\<in>set (su_blocks s). \<not> b_merged b)"

lemma merging_from_refl: "parsed s \<Longrightarrow> merging_from s s"
  unfolding merging_from_def midway_def parsed_def
  by (rule exI [of _ "su_blocks s"]) auto

lemma merging_step:
  assumes "parsed s" "merging_from s s'" "issues s' ev"
  shows "ev \<noteq> PostConfiguration
      \<and> (\<exists>s''. setup_step E f (ngx_http_xkey_module flt) ev s' = Going s'' \<and> merging_from s s'')
    \<or> ev = PostConfiguration
      \<and> setup_step E f (ngx_http_xkey_module flt) ev s' = Going (resolved flt s)"
proof -
  obtain cs where cs: "midway (su_blocks s) cs" "s' = s\<lparr>su_blocks := cs\<rparr>"
    using assms(2) by (auto simp: merging_from_def)
  note p = assms(1) [unfolded parsed_def]
  show ?thesis
  proof (cases ev)
    case (MergeBlock i)
    then have r: "merge_ready cs i" using assms(3) cs(2) by simp
    show ?thesis
      using midway_merge(1) [OF _ _ cs(1) r, of flt] midway_merge(2) [OF _ _ cs(1) r] p cs(2) MergeBlock
      by (auto simp: ngx_http_xkey_module_def merging_from_def)
  next
    case PostConfiguration
    then have "cs = map (\<lambda>i. if i = 0 then su_blocks s ! 0 else resolve (su_blocks s) i)
        [0..<length (su_blocks s)]"
      using midway_all [OF cs(1)] assms(3) cs(2) p by (simp add: nested_def)
    then show ?thesis
      using PostConfiguration cs(2)
      by (simp add: resolved_def post_conf_def ngx_http_xkey_module_def module_ctx_def
          postconfiguration_def install_filter_def)
  qed (use assms(3) cs(2) p in simp_all)
qed

text \<open>After \<open>postconfiguration\<close> nothing is issued any more.\<close>

lemma configured_stops: "su_phase s = Configured \<Longrightarrow> valid E f md evs (Going s) \<Longrightarrow> evs = []"
  by (cases evs; cases "hd evs") auto

lemma merging_run:
  assumes "parsed s" "merging_from s s'" "valid E f (ngx_http_xkey_module flt) evs (Going s')"
  shows "\<exists>s''. setup_run E f (ngx_http_xkey_module flt) evs (Going s') = Going s''
    \<and> (merging_from s s'' \<or> s'' = resolved flt s)"
  using assms(2,3)
proof (induction evs arbitrary: s')
  case (Cons ev evs)
  then have ev: "issues s' ev"
    "valid E f (ngx_http_xkey_module flt) evs (setup_step E f (ngx_http_xkey_module flt) ev s')" by simp_all
  from merging_step [OF assms(1) Cons.prems(1) ev(1), of E f flt] show ?case
  proof (elim disjE exE conjE)
    fix s1 assume "setup_step E f (ngx_http_xkey_module flt) ev s' = Going s1" "merging_from s s1"
    then show ?case using Cons.IH [of s1] ev(2) by simp
  next
    assume g: "setup_step E f (ngx_http_xkey_module flt) ev s' = Going (resolved flt s)"
    then have "evs = []" using configured_stops [of "resolved flt s"] ev(2) by (simp add: resolved_def)
    with g show ?case by simp
  qed
qed simp

section \<open>Reaching the end\<close>

text \<open>Merging in the order the blocks were opened is one way to get there.\<close>

definition finish :: "block list \<Rightarrow> setup_event list" where
  "finish bs = map MergeBlock [1..<length bs] @ [PostConfiguration]"

lemma valid_append:
  "valid E f md (evs @ evs') p \<longleftrightarrow> valid E f md evs p \<and> valid E f md evs' (setup_run E f md evs p)"
  by (induction E f md evs p rule: setup_run.induct) auto

lemma setup_run_stopped [simp]:
  "setup_run E f md evs Rejected = Rejected" "setup_run E f md evs Panic = Panic"
  by (cases evs; simp)+

lemma setup_run_append:
  "setup_run E f md (evs @ evs') p = setup_run E f md evs' (setup_run E f md evs p)"
proof (induction evs arbitrary: p)
  case (Cons ev evs)
  then show ?case by (cases p) simp_all
qed simp

lemma merge_prefix:
  assumes "parsed s" "k \<le> length (su_blocks s)" "0 < k"
  shows "valid E f (ngx_http_xkey_module flt) (map MergeBlock [1..<k]) (Going s)
    \<and> (\<exists>cs. setup_run E f (ngx_http_xkey_module flt) (map MergeBlock [1..<k]) (Going s)
          = Going (s\<lparr>su_blocks := cs\<rparr>)
        \<and> midway (su_blocks s) cs \<and> (\<forall>i<length cs. b_merged (cs ! i) \<longleftrightarrow> 0 < i \<and> i < k))"
  using assms(2,3)
proof (induction k)
  case (Suc k)
  note p = assms(1) [unfolded parsed_def]
  show ?case
  proof (cases "k = 0")
    case True
    then show ?thesis
      using p by (auto intro!: exI [of _ "su_blocks s"] simp: midway_def)
  next
    case False
    then obtain cs where cs: "setup_run E f (ngx_http_xkey_module flt) (map MergeBlock [1..<k]) (Going s)
          = Going (s\<lparr>su_blocks := cs\<rparr>)"
      "midway (su_blocks s) cs" "\<forall>i<length cs. b_merged (cs ! i) \<longleftrightarrow> 0 < i \<and> i < k"
      and v: "valid E f (ngx_http_xkey_module flt) (map MergeBlock [1..<k]) (Going s)"
      using Suc by auto
    have len: "length cs = length (su_blocks s)" "k < length cs" using cs(2) Suc.prems by (simp_all add: midway_def)
    have "cs ! k = su_blocks s ! k" using cs(2,3) len by (simp add: midway_def)
    then have "b_parent (cs ! k) < k" using p False len by (simp add: nested_def)
    then have r: "merge_ready cs k"
      using cs(3) False len by (cases "b_parent (cs ! k) = 0") (simp_all add: merge_ready_def)
    note m = midway_merge(1) [OF _ _ cs(2) r, of flt] midway_merge(2) [OF _ _ cs(2) r]
    have run: "setup_step E f (ngx_http_xkey_module flt) (MergeBlock k) (s\<lparr>su_blocks := cs\<rparr>)
        = Going (s\<lparr>su_blocks := cs[k := resolve (su_blocks s) k]\<rparr>)"
      using m p by (simp add: ngx_http_xkey_module_def)
    have marks: "\<forall>i<length (cs[k := resolve (su_blocks s) k]).
        b_merged (cs[k := resolve (su_blocks s) k] ! i) \<longleftrightarrow> 0 < i \<and> i < Suc k"
      using cs(3) False len by (auto simp: nth_list_update less_Suc_eq)
    have up: "[1..<Suc k] = [1..<k] @ [k]" using False by simp
    show ?thesis
      unfolding up map_append setup_run_append valid_append cs(1)
      using v r m(2) p run marks by auto
  qed
qed simp

lemma finish_run:
  assumes "parsed s"
  shows "valid E f (ngx_http_xkey_module flt) (finish (su_blocks s)) (Going s)
    \<and> setup_run E f (ngx_http_xkey_module flt) (finish (su_blocks s)) (Going s) = Going (resolved flt s)"
proof -
  note p = assms(1) [unfolded parsed_def]
  then have "0 < length (su_blocks s)" by (simp add: nested_def)
  then obtain cs where cs: "setup_run E f (ngx_http_xkey_module flt)
        (map MergeBlock [1..<length (su_blocks s)]) (Going s) = Going (s\<lparr>su_blocks := cs\<rparr>)"
    "midway (su_blocks s) cs"
    "\<forall>i<length cs. b_merged (cs ! i) \<longleftrightarrow> 0 < i \<and> i < length (su_blocks s)"
    and v: "valid E f (ngx_http_xkey_module flt) (map MergeBlock [1..<length (su_blocks s)]) (Going s)"
    using merge_prefix [OF assms order_refl, of E f flt] by blast
  have "list_all b_merged (tl cs)" using cs(2,3) by (simp add: midway_def list_all_length nth_tl)
  then have i: "issues (s\<lparr>su_blocks := cs\<rparr>) PostConfiguration" using p by simp
  have "merging_from s (s\<lparr>su_blocks := cs\<rparr>)" using cs(2) by (auto simp: merging_from_def)
  from merging_step [OF assms this i, of E f flt]
  have "setup_step E f (ngx_http_xkey_module flt) PostConfiguration (s\<lparr>su_blocks := cs\<rparr>)
      = Going (resolved flt s)"
    by blast
  then show ?thesis
    unfolding finish_def valid_append setup_run_append cs(1) using v i by simp
qed

end
