(* ===== verification/Setup_Properties.thy ===== *)
theory Setup_Properties
  imports Setup_Merge Reference_World
begin

text \<open>
  The properties of reading a configuration, and of the server it configures. The reference
  \<open>zone_table\<close> of shared zones, eight places found by name, is the one the witnesses read the
  documentation's example configuration with.
\<close>

section \<open>A table of zones\<close>

definition place_zone :: "bytes \<Rightarrow> usize \<Rightarrow> owner \<Rightarrow> cycle \<Rightarrow> zone_id option \<times> cycle" where
  "place_zone n sz ow cy =
     (case List.find (\<lambda>z. map_option sz_name (cy z) = Some n) [0..<8] of
        Some z \<Rightarrow> (if map_option sz_owner (cy z) = Some ow then (Some z, cy) else (None, cy))
      | None \<Rightarrow>
          (case List.find (\<lambda>z. cy z = None) [0..<8] of
             None \<Rightarrow> (None, cy)
           | Some z \<Rightarrow> (Some z, cy(z \<mapsto> \<lparr>sz_name = n, sz_size = sz, sz_owner = ow,
                                         sz_init = None, sz_data = False\<rparr>))))"

definition zone_table :: conf_env where
  "zone_table =
     \<lparr>parse_size = (\<lambda>s. if s = bytes_of ''32m'' then 33554432 else -1),
      shared_memory_add = place_zone\<rparr>"

definition flag_slot :: "bytes list \<Rightarrow> int \<Rightarrow> bool \<times> int" where
  "flag_slot args v =
     (if v \<noteq> NGX_CONF_UNSET then (False, v)
      else if args ! 1 = bytes_of ''on'' then (True, 1)
      else if args ! 1 = bytes_of ''off'' then (True, 0)
      else (False, v))"

lemma place_zone_cases:
  assumes "place_zone n sz ow cy = (r, cy')"
  obtains "cy' = cy" "\<forall>z. r = Some z \<longrightarrow> map_option sz_owner (cy z) = Some ow"
  | z where "r = Some z" "cy z = None"
      "cy' = cy(z \<mapsto> \<lparr>sz_name = n, sz_size = sz, sz_owner = ow, sz_init = None, sz_data = False\<rparr>)"
proof (cases "List.find (\<lambda>z. map_option sz_name (cy z) = Some n) [0..<8]")
  case None
  note named = this
  show ?thesis
  proof (cases "List.find (\<lambda>z. cy z = None) [0..<8]")
    case None
    then have "r = None" "cy' = cy" using assms named by (simp_all add: place_zone_def del: upt.simps)
    then show ?thesis by (intro that(1)) simp_all
  next
    case (Some z)
    then have "cy z = None" by (metis (mono_tags, lifting) find_Some_iff)
    moreover have "r = Some z"
      "cy' = cy(z \<mapsto> \<lparr>sz_name = n, sz_size = sz, sz_owner = ow, sz_init = None, sz_data = False\<rparr>)"
      using assms named Some by (simp_all add: place_zone_def del: upt.simps)
    ultimately show ?thesis by (intro that(2))
  qed
next
  case (Some z)
  then have "cy' = cy" "\<forall>z. r = Some z \<longrightarrow> map_option sz_owner (cy z) = Some ow"
    using assms by (auto simp: place_zone_def simp del: upt.simps split: if_splits)
  then show ?thesis by (rule that(1))
qed

lemma zone_table_laws: "setup_laws zone_table flag_slot"
proof
  fix n sz ow cy z cy' assume "shared_memory_add zone_table n sz ow cy = (Some z, cy')"
  then show "map_option sz_owner (cy' z) = Some ow"
    by (auto simp: zone_table_def elim: place_zone_cases)
next
  fix n sz ow cy r cy' x zone
  assume "shared_memory_add zone_table n sz ow cy = (r, cy')" "cy x = Some zone"
  then have "place_zone n sz ow cy = (r, cy')" "cy x = Some zone" by (simp_all add: zone_table_def)
  then show "\<exists>zone'. cy' x = Some zone' \<and> sz_owner zone' = sz_owner zone
      \<and> sz_init zone' = sz_init zone \<and> sz_data zone' = sz_data zone"
    by (cases rule: place_zone_cases) auto
next
  fix n sz ow cy r cy' x zone
  assume "shared_memory_add zone_table n sz ow cy = (r, cy')" "cy x = None" "cy' x = Some zone"
  then show "sz_init zone = None"
    by (auto simp: zone_table_def elim!: place_zone_cases split: if_splits)
next
  fix args v v' assume "flag_slot args v = (True, v')"
  then show "v' = 0 \<or> v' = 1" by (auto simp: flag_slot_def split: if_splits)
qed

interpretation zone_table_setup: setup_laws zone_table flag_slot
  by (rule zone_table_laws)

interpretation zone_table_conf: conf_laws zone_table
  by (rule zone_table_setup.conf_laws_axioms)

text \<open>The configuration that the documentation of \<open>src/lib.rs\<close> shows.\<close>

definition doc_events :: "setup_event list" where
  "doc_events =
     [RunDirective 0 [bytes_of ''xkey_zone'', bytes_of ''xkey:32m''],
      CacheZone (bytes_of ''CACHE'') 104857600,
      OpenBlock ServerContext 0, OpenBlock LocationContext 1, OpenBlock LocationContext 1,
      RunDirective 3 [bytes_of ''xkey_purge'', bytes_of ''CACHE''], ParseEnd]"

definition no_filters :: "nat filters" where
  "no_filters = \<lparr>next_header_filter = None, top_header_filter = Some 7\<rparr>"

definition doc_start :: "nat reading" where
  "doc_start = the (setup_start (ngx_http_xkey_module 1) Map.empty no_filters)"

definition doc_parsed :: "nat reading" where
  "doc_parsed =
     \<lparr>su_phase = Merging, su_main = \<lparr>shm_zone = Some 0, header = bytes_of ''xkey''\<rparr>,
      su_blocks =
        [\<lparr>b_context = MainContext, b_parent = 0, b_loc = loc_conf_default, b_handler = None,
          b_merged = False\<rparr>,
         \<lparr>b_context = ServerContext, b_parent = 0, b_loc = loc_conf_default, b_handler = None,
          b_merged = False\<rparr>,
         \<lparr>b_context = LocationContext, b_parent = 1, b_loc = loc_conf_default, b_handler = None,
          b_merged = False\<rparr>,
         \<lparr>b_context = LocationContext, b_parent = 1,
          b_loc = \<lparr>cache_zone = Some 1, fallback = NGX_CONF_UNSET\<rparr>, b_handler = Some PurgeHandler,
          b_merged = False\<rparr>],
      su_cycle =
        [0 \<mapsto> \<lparr>sz_name = bytes_of ''xkey'', sz_size = 33554432, sz_owner = XkeyModule,
               sz_init = Some ZoneInit, sz_data = True\<rparr>,
         1 \<mapsto> \<lparr>sz_name = bytes_of ''CACHE'', sz_size = 104857600, sz_owner = ProxyModule,
               sz_init = None, sz_data = False\<rparr>],
      su_filters = no_filters\<rparr>"

lemmas setup_eval = doc_events_def doc_start_def doc_parsed_def setup_start_def open_block_def
  ngx_http_xkey_module_def module_ctx_def create_main_conf_def create_loc_conf_def find_command_def
  commands_def arity_admits_def block_conf_def run_setter_def xkey_zone_def xkey_purge_def
  zone_args_def zone_table_def place_zone_def put_block_def main_conf_default_def
  loc_conf_default_def no_filters_def upt_rec

lemma doc_started: "setup_start (ngx_http_xkey_module 1) Map.empty no_filters = Some doc_start"
  by (simp add: setup_eval)

lemma doc_reading:
  "setup_run zone_table flag_slot (ngx_http_xkey_module 1) doc_events (Going doc_start) = Going doc_parsed"
  by (simp add: setup_eval)

lemma doc_valid: "valid zone_table flag_slot (ngx_http_xkey_module 1) doc_events (Going doc_start)"
  by (simp add: setup_eval)

section \<open>Properties of an accepted configuration\<close>

lemma run_typed:
  assumes "setup_laws E f" "typed flt fs s" "valid E f (ngx_http_xkey_module flt) evs (Going s)"
    and "setup_run E f (ngx_http_xkey_module flt) evs (Going s) = Going s'"
  shows "typed flt fs s'"
  using assms(2-4)
proof (induction evs arbitrary: s)
  case (Cons ev evs)
  show ?case
  proof (cases "setup_step E f (ngx_http_xkey_module flt) ev s")
    case (Going s1)
    then show ?thesis
      using Cons.IH [of s1] Cons.prems setup_laws.typed_step [OF assms(1) Cons.prems(1) _ Going] by simp
  qed (use Cons.prems in simp_all)
qed simp

text \<open>C13: Whatever order NGINX reads a configuration in, while and after it does, no zone pointer
  is confused: the module's main configuration points at a zone of this module prepared for
  \<open>zone_init\<close>, which runs for no other zone; a location with the purge handler points at a zone
  of the proxy module, so never at the index's own. At the end the fallback flag of every block
  under \<open>http\<close> is 0 or 1 and the header filter heads NGINX's chain.\<close>

theorem configuration_is_typed:
  assumes "setup_laws E f" "\<forall>z zone. cy z = Some zone \<longrightarrow> sz_init zone = None"
    and "setup_start (ngx_http_xkey_module flt) cy fs = Some s0"
    and "valid E f (ngx_http_xkey_module flt) evs (Going s0)"
    and "setup_run E f (ngx_http_xkey_module flt) evs (Going s0) = Going s"
  shows "(\<forall>z. shm_zone (su_main s) = Some z \<longrightarrow>
        (\<exists>zone. su_cycle s z = Some zone \<and> sz_owner zone = XkeyModule \<and> sz_init zone = Some ZoneInit))
    \<and> (\<forall>z zone. su_cycle s z = Some zone \<longrightarrow> sz_init zone \<noteq> None \<longrightarrow> shm_zone (su_main s) = Some z)
    \<and> (\<forall>b\<in>set (su_blocks s). b_handler b = Some PurgeHandler \<longrightarrow>
        b_context b = LocationContext
        \<and> (\<exists>z zone. cache_zone (b_loc b) = Some z \<and> su_cycle s z = Some zone
             \<and> sz_owner zone = ProxyModule \<and> shm_zone (su_main s) \<noteq> Some z))
    \<and> (su_phase s = Configured \<longrightarrow>
        (\<forall>b\<in>set (tl (su_blocks s)). fallback (b_loc b) \<in> {0, 1})
        \<and> su_filters s = \<lparr>next_header_filter = top_header_filter fs, top_header_filter = Some flt\<rparr>)"
proof -
  have t: "typed flt fs s"
    by (rule run_typed [OF assms(1) typed_start [OF assms(3,2)] assms(4,5)])
  note d = t [unfolded typed_def zone_typed_def]
  have "\<exists>z zone. cache_zone (b_loc b) = Some z \<and> su_cycle s z = Some zone
      \<and> sz_owner zone = ProxyModule \<and> shm_zone (su_main s) \<noteq> Some z"
    if "b \<in> set (su_blocks s)" "b_handler b = Some PurgeHandler" for b
    using d that by (fastforce simp: list_all_iff block_typed_def cache_typed_def split: option.splits)
  moreover have "b_context b = LocationContext"
    if "b \<in> set (su_blocks s)" "b_handler b = Some PurgeHandler" for b
    using d that by (auto simp: list_all_iff block_typed_def cache_typed_def)
  moreover have "fallback (b_loc b) \<in> {0, 1}"
    if "b \<in> set (tl (su_blocks s))" "su_phase s = Configured" for b
  proof -
    have "su_blocks s \<noteq> []" "list_all b_merged (tl (su_blocks s))" using d that(2) by (simp_all add: nested_def)
    then have "b \<in> set (su_blocks s)" "b_merged b"
      using that(1) list.set_sel(2) by (simp_all add: list_all_iff)
    moreover have "block_typed (su_cycle s) b" using d calculation(1) by (simp add: list_all_iff)
    ultimately show ?thesis by (simp add: block_typed_def flag_typed_def)
  qed
  moreover have "snd (install_filter flt fs)
      = \<lparr>next_header_filter = top_header_filter fs, top_header_filter = Some flt\<rparr>"
    by (simp add: install_filter_def)
  ultimately show ?thesis using d by (intro conjI allI ballI impI) (blast | simp)+
qed

theorem configuration_is_typed_witness:
  "\<exists>z zone. cache_zone (b_loc (su_blocks doc_parsed ! 3)) = Some z \<and> su_cycle doc_parsed z = Some zone
     \<and> sz_owner zone = ProxyModule \<and> shm_zone (su_main doc_parsed) \<noteq> Some z"
proof -
  have "su_blocks doc_parsed ! 3 \<in> set (su_blocks doc_parsed)"
    "b_handler (su_blocks doc_parsed ! 3) = Some PurgeHandler"
    by (simp_all add: doc_parsed_def)
  moreover have "\<forall>z zone. Map.empty z = Some zone \<longrightarrow> sz_init zone = None" by simp
  ultimately show ?thesis
    using configuration_is_typed [OF zone_table_laws _ doc_started doc_valid doc_reading] by blast
qed

text \<open>C34: Reading a configuration never panics, whatever the directives' words are, even in an
  order NGINX would not use; and it is only ever a directive, a zone that cannot be had, that
  makes NGINX reject it: no callback of the module does.\<close>

theorem configuration_never_panics:
  assumes "setup_laws E f"
  shows "case setup_run E f (ngx_http_xkey_module flt) evs (Going s) of
      Panic \<Rightarrow> False
    | Going s' \<Rightarrow> True
    | Rejected \<Rightarrow>
        \<exists>pre ev post s'. evs = pre @ ev # post
          \<and> setup_run E f (ngx_http_xkey_module flt) pre (Going s) = Going s'
          \<and> (case ev of RunDirective i args \<Rightarrow> True | CacheZone n sz \<Rightarrow> True | _ \<Rightarrow> False)"
proof (induction evs arbitrary: s)
  case (Cons ev evs)
  let ?md = "ngx_http_xkey_module flt"
  show ?case
  proof (cases "setup_step E f ?md ev s")
    case (Going s1)
    show ?thesis
    proof (cases "setup_run E f ?md evs (Going s1)")
      case Rejected
      then obtain pre e post s' where "evs = pre @ e # post"
        "setup_run E f ?md pre (Going s1) = Going s'"
        "case e of RunDirective i args \<Rightarrow> True | CacheZone n sz \<Rightarrow> True | _ \<Rightarrow> False"
        using Cons.IH [of s1] by auto
      then show ?thesis
        using Going Rejected
        by (simp, intro exI [of _ "ev # pre"] exI [of _ e] exI [of _ post]) simp
    qed (use Cons.IH [of s1] Going in simp_all)
  next
    case Rejected
    have "case ev of RunDirective i args \<Rightarrow> True | CacheZone n sz \<Rightarrow> True | _ \<Rightarrow> False"
      using Rejected
      by (cases ev) (simp_all add: open_block_def ngx_http_xkey_module_def module_ctx_def
          merge_block_def merge_loc_conf_def Let_def post_conf_def postconfiguration_def install_filter_def)
    then show ?thesis
      using Rejected by (auto intro!: exI [of _ "[]"])
  next
    case Panic
    then show ?thesis using setup_laws.step_no_panic [OF assms, of ?md ev s] by simp
  qed
qed simp

theorem configuration_never_panics_witness:
  "setup_run zone_table flag_slot (ngx_http_xkey_module (1 :: nat))
     [RunDirective 0 [bytes_of ''xkey_zone'', bytes_of ''xkey''], ParseEnd] (Going doc_start) \<noteq> Panic"
proof
  assume "setup_run zone_table flag_slot (ngx_http_xkey_module (1 :: nat))
      [RunDirective 0 [bytes_of ''xkey_zone'', bytes_of ''xkey''], ParseEnd] (Going doc_start) = Panic"
  with configuration_never_panics [OF zone_table_laws, where flt = "1 :: nat" and s = doc_start
      and evs = "[RunDirective 0 [bytes_of ''xkey_zone'', bytes_of ''xkey''], ParseEnd]"]
  show False by (simp only: progress.case)
qed

text \<open>C16: Once the last block is read the outcome is settled: the merging can always be carried
  through, whatever order NGINX merges the blocks in none is refused, and every way of reaching
  the end gives the same configuration, in which each block under \<open>http\<close> has the flag of the
  nearest block around it that sets one, on if none does, and all else is as it was read.\<close>

theorem merging_order_irrelevant:
  assumes "setup_laws E f" "\<forall>z zone. cy z = Some zone \<longrightarrow> sz_init zone = None"
    and "setup_start (ngx_http_xkey_module flt) cy fs = Some s0"
    and "valid E f (ngx_http_xkey_module flt) (evs @ [ParseEnd]) (Going s0)"
    and "setup_run E f (ngx_http_xkey_module flt) (evs @ [ParseEnd]) (Going s0) = Going s"
  shows "(\<exists>fin. valid E f (ngx_http_xkey_module flt) fin (Going s)
        \<and> setup_run E f (ngx_http_xkey_module flt) fin (Going s) = Going (resolved flt s))
    \<and> (\<forall>fin. valid E f (ngx_http_xkey_module flt) fin (Going s) \<longrightarrow>
        (\<exists>s'. setup_run E f (ngx_http_xkey_module flt) fin (Going s) = Going s'
          \<and> (su_phase s' = Configured \<longrightarrow> s' = resolved flt s)))"
proof -
  let ?md = "ngx_http_xkey_module flt"
  obtain s1 where s1: "setup_run E f ?md evs (Going s0) = Going s1"
    using assms(5) by (cases "setup_run E f ?md evs (Going s0)") (simp_all add: setup_run_append)
  then have v: "valid E f ?md evs (Going s0)" "su_phase s1 = Parsing" and s: "s = s1\<lparr>su_phase := Merging\<rparr>"
    using assms(4,5) by (simp_all add: valid_append setup_run_append)
  have "typed flt fs s1"
    by (rule run_typed [OF assms(1) typed_start [OF assms(3,2)] v(1) s1])
  then have p: "parsed s" using v(2) s by (simp add: typed_def parsed_def list_all_iff)
  have "\<exists>s'. setup_run E f ?md fin (Going s) = Going s' \<and> (su_phase s' = Configured \<longrightarrow> s' = resolved flt s)"
    if fin: "valid E f ?md fin (Going s)" for fin
  proof -
    obtain s' where "setup_run E f ?md fin (Going s) = Going s'" "merging_from s s' \<or> s' = resolved flt s"
      using merging_run [OF p merging_from_refl [OF p] fin] by blast
    then show ?thesis using p by (auto simp: merging_from_def parsed_def)
  qed
  then show ?thesis using finish_run [OF p, of E f flt] by blast
qed

lemma doc_resolved:
  "su_blocks (resolved 1 doc_parsed) ! 3 =
     (su_blocks doc_parsed ! 3)\<lparr>b_loc := \<lparr>cache_zone = Some 1, fallback = 1\<rparr>, b_merged := True\<rparr>"
  by (simp add: resolved_def doc_parsed_def resolve_def inherited.simps loc_conf_default_def upt_rec
      NGX_CONF_UNSET_def)

theorem merging_order_irrelevant_witness:
  "\<exists>fin s'. setup_run zone_table flag_slot (ngx_http_xkey_module 1) fin (Going doc_parsed) = Going s'
     \<and> su_phase s' = Configured \<and> fallback (b_loc (su_blocks s' ! 3)) = 1"
proof -
  have e: "doc_events = butlast doc_events @ [ParseEnd]" by (simp add: doc_events_def)
  have "\<forall>z zone. Map.empty z = Some zone \<longrightarrow> sz_init zone = None" by simp
  from merging_order_irrelevant [OF zone_table_laws this doc_started, of "butlast doc_events" doc_parsed]
  obtain fin where "setup_run zone_table flag_slot (ngx_http_xkey_module 1) fin (Going doc_parsed)
      = Going (resolved 1 doc_parsed)"
    using doc_valid doc_reading e by auto
  moreover have "su_phase (resolved 1 doc_parsed) = Configured" by (simp add: resolved_def)
  ultimately show ?thesis using doc_resolved by fastforce
qed

section \<open>The configured server\<close>

text \<open>What a request that NGINX routes to a block finds as its configuration.\<close>

definition request_conf :: "'f reading \<Rightarrow> nat \<Rightarrow> conf" where
  "request_conf s i = \<lparr>main_conf = Some (su_main s), location_conf = Some (b_loc (su_blocks s ! i))\<rparr>"

text \<open>Every zone of the proxy module holds its cache when requests are served.\<close>

definition caches_ready ::
  "cycle \<Rightarrow> ('a, 'm, 'q, 'w) world \<Rightarrow> (zone_id \<Rightarrow> cpath) \<Rightarrow> (zone_id \<Rightarrow> nat tree) \<Rightarrow> bool" where
  "caches_ready cy w p t \<longleftrightarrow>
     (\<forall>z zone. cy z = Some zone \<longrightarrow> sz_owner zone = ProxyModule \<longrightarrow>
        (\<exists>fc. w_caches w z = Some fc \<and> cache_at fc (p z) \<and> cache_ok (fc_tree fc) (t z)))"

lemma typed_purge_setup:
  assumes "typed flt fs s" "i < length (su_blocks s)" "b_handler (su_blocks s ! i) = Some PurgeHandler"
    and "shm_zone (su_main s) \<noteq> None" "caches_ready (su_cycle s) w p t"
  shows "\<exists>z fc. cache_zone (b_loc (su_blocks s ! i)) = Some z
    \<and> purge_setup (request_conf s i) w (su_main s) (b_loc (su_blocks s ! i)) z fc
    \<and> cache_at fc (p z) \<and> cache_ok (fc_tree fc) (t z)"
proof -
  have "cache_typed (su_blocks s ! i) (su_cycle s)"
    using assms(1,2) by (simp add: typed_def list_all_length block_typed_def)
  then obtain z zone where "cache_zone (b_loc (su_blocks s ! i)) = Some z" "su_cycle s z = Some zone"
    "sz_owner zone = ProxyModule"
    using assms(3) by (auto simp: cache_typed_def split: option.splits)
  then show ?thesis
    using assms(4,5) by (auto simp: caches_ready_def purge_setup_def request_conf_def)
qed

text \<open>C3: From the configuration file to the purge: in a server whose configuration NGINX has read,
  in any order, and that has an \<open>xkey_zone\<close> with room, a response recorded in any block and then
  purged by any of its tags, through any location that has the purge handler, is answered from
  the index; its file in that location's cache is gone and its node cleared.\<close>

theorem configured_response_is_purged:
  assumes "setup_laws E f" "\<forall>z zone. cy z = Some zone \<longrightarrow> sz_init zone = None"
    and "setup_start (ngx_http_xkey_module flt) cy fs = Some s0"
    and "valid E f (ngx_http_xkey_module flt) evs (Going s0)"
    and "setup_run E f (ngx_http_xkey_module flt) evs (Going s0) = Going s"
    and "shm_zone (su_main s) \<noteq> None" "caches_ready (su_cycle s) w p t"
    and "i < length (su_blocks s)" "b_handler (su_blocks s ! i) = Some PurgeHandler"
    and "site_live N ring map_ok S files dirs" "ngx_room N ring map_ok"
    and "zone_rel N ring map_ok (w_zone w) L" "\<forall>(t, k)\<in>lru_pairs L. key_ok k"
    and "r_main r0" "response_key r0 = Some key" "key_ok key"
    and "header_lookup (header (su_main s)) (r_headers_out r0) = Some v"
    and "tag \<in> set (split_tags v)" "tag_accepted tag" "purge_request r tag"
  shows "\<exists>z z' rc r' w' fc'. cache_zone (b_loc (su_blocks s ! i)) = Some z
    \<and> record_response N (request_conf s j) r0 (w_zone w) = Some z'
    \<and> purge_handler N S e (request_conf s i) r (w\<lparr>w_zone := z'\<rparr>) = Some ((rc, r'), w')
    \<and> AddHeaderOut (bytes_of ''x-purge-source'') (bytes_of ''index'') \<in> set (r_calls r')
    \<and> files (w_os w') (cache_file dirs (p z) key) = None
    \<and> w_caches w' z = Some fc' \<and> nkey_of e key \<notin> live_keys (fc_tree fc') (t z)"
proof -
  have "typed flt fs s" by (rule run_typed [OF assms(1) typed_start [OF assms(3,2)] assms(4,5)])
  then obtain z fc where z: "cache_zone (b_loc (su_blocks s ! i)) = Some z"
    "purge_setup (request_conf s i) w (su_main s) (b_loc (su_blocks s ! i)) z fc"
    "cache_at fc (p z)" "cache_ok (fc_tree fc) (t z)"
    using typed_purge_setup [OF _ assms(8,9,6,7)] by blast
  have tags: "response_tags (request_conf s j) r0 = Some (key, split_tags v)"
    using assms(6,14,15,17) by (simp add: response_tags_def request_conf_def)
  show ?thesis
    using z(1) recorded_then_purged [OF assms(10-13) tags assms(16,18-20) z(2-4), of e] by fastforce
qed

theorem configured_response_is_purged_witness:
  "\<exists>z' rc r' w'. record_response ref_room (request_conf doc_parsed 2) demo_request demo_zone = Some z'
    \<and> purge_handler ref_room disk_os Little (request_conf doc_parsed 3) demo_request (demo_world z')
        = Some ((rc, r'), w')
    \<and> disk_files (w_os w') demo_file = None"
proof -
  have d: "\<forall>z zone. Map.empty z = Some zone \<longrightarrow> sz_init zone = None"
    "shm_zone (su_main doc_parsed) \<noteq> None"
    "caches_ready (su_cycle doc_parsed) (demo_world demo_zone) (\<lambda>_. demo_path) (\<lambda>_. Node Leaf 1 Leaf)"
    "3 < length (su_blocks doc_parsed)" "b_handler (su_blocks doc_parsed ! 3) = Some PurgeHandler"
    "zone_rel ref_room dll_ring ref_map_ok (w_zone (demo_world demo_zone)) []"
    "cache_zone (b_loc (su_blocks doc_parsed ! 3)) = Some 1"
    "header_lookup (header (su_main doc_parsed)) (r_headers_out demo_request) = Some demo_tag"
    "split_tags demo_tag = [demo_tag]" "r_main demo_request" "tag_accepted demo_tag"
    "response_key demo_request = Some (demo_key 1)"
    "w_zone (demo_world demo_zone) = demo_zone" "(demo_world demo_zone)\<lparr>w_zone := z\<rparr> = demo_world z" for z
    using demo_zone_rel demo_tag_ok demo_path_ok demo_tree_ok demo_tags
    by (auto simp: doc_parsed_def caches_ready_def demo_world_def demo_cache_def tag_accepted_def
        demo_request_def response_tags_def response_key_def demo_conf_def demo_main_def
        split: if_splits option.splits)
  show ?thesis
    using configured_response_is_purged [OF zone_table_laws d(1) doc_started doc_valid doc_reading d(2-5)
        live.site_live_axioms ref_room_env d(6) _ d(10,12) demo_key_ok d(8) _ d(11) demo_purge,
        of 2 Little] d(7,9,13,14)
    by (auto simp: demo_file_def)
qed

end
