(* ===== verification/Scan_Rebuild.thy ===== *)
theory Scan_Rebuild
  imports Purge_Complete
begin

text \<open>
  A scan writes the tags it reads back into the index, so that the next purge answers from memory
  (\<open>src/scan.rs\<close>). While the zone has room, the index after the walk is \<open>scan_lru\<close>: each file
  that stays recorded in turn. For a tag with no more keys than the cap it then knows every
  file that carries the tag.
\<close>

section \<open>The index after a walk\<close>

definition scan_lru1 ::
  "'w os \<Rightarrow> bytes \<Rightarrow> (bytes \<Rightarrow> bytes option) \<Rightarrow> bytes \<Rightarrow> lru \<Rightarrow> bytes \<Rightarrow> lru" where
  "scan_lru1 S hdr F tag L name =
     (case entry_at S MAX_HEADER_BLOCK hdr F name of
        None \<Rightarrow> L
      | Some (k, ts) \<Rightarrow> if tag \<in> set ts then L else lru_record_all k ts L)"

definition scan_lru ::
  "'w os \<Rightarrow> bytes \<Rightarrow> (bytes \<Rightarrow> bytes option) \<Rightarrow> bytes \<Rightarrow> bytes list \<Rightarrow> lru \<Rightarrow> lru" where
  "scan_lru S hdr F tag names L = foldl (scan_lru1 S hdr F tag) L names"

lemma scan_lru_simps [simp]:
  "scan_lru S hdr F tag [] L = L"
  "scan_lru S hdr F tag (name # names) L = scan_lru S hdr F tag names (scan_lru1 S hdr F tag L name)"
  by (simp_all add: scan_lru_def)

lemma scan_lru_cong:
  assumes "\<forall>x\<in>set names. F' x = F x"
  shows "scan_lru S hdr F' tag names L = scan_lru S hdr F tag names L"
proof -
  have "scan_lru1 S hdr F' tag L x = scan_lru1 S hdr F tag L x" if "x \<in> set names" for L x
    using that assms entry_at_cong [of F' x F S MAX_HEADER_BLOCK hdr] by (simp add: scan_lru1_def)
  then show ?thesis unfolding scan_lru_def by (intro foldl_cong) simp_all
qed

lemma lru_ok_scan1: "lru_ok L \<Longrightarrow> lru_ok (scan_lru1 S hdr F tag L name)"
  by (simp add: scan_lru1_def lru_ok_record_all split: option.split prod.split)

text \<open>One file, for a tag whose keys stay within the cap \<open>B\<close>.\<close>

lemma scan_lru1_pairs:
  assumes L: "lru_ok L" and B: "finite B" "card B \<le> MAX_KEYS_PER_TAG"
    and within: "\<forall>k. (t, k) \<in> lru_pairs L \<longrightarrow> k \<in> B"
    and new: "\<forall>k ts. entry_at S MAX_HEADER_BLOCK hdr F name = Some (k, ts) \<and> t \<in> set ts \<longrightarrow> k \<in> B"
  shows "(t, k) \<in> lru_pairs L \<Longrightarrow> (t, k) \<in> lru_pairs (scan_lru1 S hdr F tag L name)"
    and "(t, k) \<in> lru_pairs (scan_lru1 S hdr F tag L name) \<Longrightarrow> k \<in> B"
    and "entry_at S MAX_HEADER_BLOCK hdr F name = Some (k, ts) \<Longrightarrow> tag \<notin> set ts \<Longrightarrow> t \<in> set ts \<Longrightarrow>
      tag_accepted t \<Longrightarrow> (t, k) \<in> lru_pairs (scan_lru1 S hdr F tag L name)"
proof -
  have grow: "(t, k) \<in> lru_pairs (lru_record_all k0 ts L)"
    if e: "entry_at S MAX_HEADER_BLOCK hdr F name = Some (k0, ts)" and k: "(t, k) \<in> lru_pairs L" for k0 ts
  proof (cases "t \<in> set ts")
    case True
    then have k0: "k0 \<in> B" using new e by blast
    have "\<not> lru_sheds t k0 L"
    proof
      assume "lru_sheds t k0 L"
      then obtain ks where ks: "map_of L t = Some ks" "k0 \<notin> set ks" "MAX_KEYS_PER_TAG \<le> length ks"
        by (auto simp: lru_sheds_def split: option.splits)
      have "distinct ks" using L ks(1) by (auto simp: lru_ok_def keys_ok_def dest!: map_of_SomeD)
      moreover have "insert k0 (set ks) \<subseteq> B" using within ks(1) k0 by (auto simp: lru_pairs_iff)
      ultimately have "Suc (length ks) \<le> card B"
        using card_mono [OF B(1)] ks(2) by (metis List.finite_set card_insert_disjoint distinct_card)
      then show False using ks(3) B(2) by simp
    qed
    then show ?thesis using lru_record_all_grows [OF L] k by blast
  next
    case False
    then show ?thesis using lru_record_all_other [OF L False, of k0] k by (simp add: lru_pairs_iff)
  qed
  show "(t, k) \<in> lru_pairs L \<Longrightarrow> (t, k) \<in> lru_pairs (scan_lru1 S hdr F tag L name)"
    using grow by (auto simp: scan_lru1_def split: option.split)
  show "(t, k) \<in> lru_pairs (scan_lru1 S hdr F tag L name) \<Longrightarrow> k \<in> B"
    using within new subsetD [OF lru_record_all_pairs [OF L]]
    by (fastforce simp: scan_lru1_def split: option.splits if_splits)
  show "entry_at S MAX_HEADER_BLOCK hdr F name = Some (k, ts) \<Longrightarrow> tag \<notin> set ts \<Longrightarrow> t \<in> set ts \<Longrightarrow>
      tag_accepted t \<Longrightarrow> (t, k) \<in> lru_pairs (scan_lru1 S hdr F tag L name)"
    using lru_record_all_mem [OF L, of t ts k] by (simp add: scan_lru1_def lru_pairs_iff)
qed

text \<open>All files: every file that stays and carries the tag is known.\<close>

lemma scan_lru_pairs:
  assumes B: "finite B" "card B \<le> MAX_KEYS_PER_TAG" and acc: "tag_accepted t"
    and files: "\<forall>k. (t, k) \<in> file_pairs S hdr F \<longrightarrow> k \<in> B"
  shows "lru_ok L \<Longrightarrow> \<forall>k. (t, k) \<in> lru_pairs L \<longrightarrow> k \<in> B \<Longrightarrow>
    (t, k) \<in> lru_pairs L \<or> (t, k) \<in> kept_pairs (entry_at S MAX_HEADER_BLOCK hdr F) tag names \<Longrightarrow>
    (t, k) \<in> lru_pairs (scan_lru S hdr F tag names L)"
proof (induction names arbitrary: L)
  case (Cons name names)
  have new: "\<forall>k ts. entry_at S MAX_HEADER_BLOCK hdr F name = Some (k, ts) \<and> t \<in> set ts \<longrightarrow> k \<in> B"
    using files by (auto simp: file_pairs_def)
  note step = scan_lru1_pairs [OF Cons.prems(1) B Cons.prems(2) new]
  let ?L = "scan_lru1 S hdr F tag L name"
  have "(t, k) \<in> lru_pairs ?L \<or> (t, k) \<in> kept_pairs (entry_at S MAX_HEADER_BLOCK hdr F) tag names"
    using Cons.prems(3) step(1,3) acc by (auto simp: kept_pairs_Cons split: option.splits if_splits)
  moreover have "\<forall>k. (t, k) \<in> lru_pairs ?L \<longrightarrow> k \<in> B" using step(2) by blast
  ultimately show ?case using Cons.IH [of ?L, OF lru_ok_scan1 [OF Cons.prems(1)]] by simp
qed simp

lemma scan_lru_within:
  assumes B: "finite B" "card B \<le> MAX_KEYS_PER_TAG"
    and files: "\<forall>k. (t, k) \<in> file_pairs S hdr F \<longrightarrow> k \<in> B"
  shows "lru_ok L \<Longrightarrow> \<forall>k. (t, k) \<in> lru_pairs L \<longrightarrow> k \<in> B \<Longrightarrow>
    \<forall>k. (t, k) \<in> lru_pairs (scan_lru S hdr F tag names L) \<longrightarrow> k \<in> B"
proof (induction names arbitrary: L)
  case (Cons name names)
  have "\<forall>k ts. entry_at S MAX_HEADER_BLOCK hdr F name = Some (k, ts) \<and> t \<in> set ts \<longrightarrow> k \<in> B"
    using files by (auto simp: file_pairs_def)
  then have "\<forall>k. (t, k) \<in> lru_pairs (scan_lru1 S hdr F tag L name) \<longrightarrow> k \<in> B"
    using scan_lru1_pairs(2) [OF Cons.prems(1) B Cons.prems(2)] by blast
  then show ?case using Cons.IH [OF lru_ok_scan1 [OF Cons.prems(1)]] by simp
qed simp

section \<open>The walk\<close>

context site_live
begin

lemma on_file_room:
  assumes room: "ngx_room N ring map_ok" and rel: "zone_rel N ring map_ok (s_zone st) L"
    and name: "0 \<notin> set name" and sc: "sc_index sc" "length (sc_buf sc) = MAX_HEADER_BLOCK"
    and run: "on_file N S e name (sc, st) = Some (sc', st')"
  shows "zone_rel N ring map_ok (s_zone st')
    (scan_lru1 S (sc_header sc) (files (s_os st)) (sc_tag sc) L name)"
proof -
  let ?ent = "entry_at S MAX_HEADER_BLOCK (sc_header sc) (files (s_os st)) name"
  obtain r buf w1 where rd: "read_header_block S name (sc_buf sc) (s_os st) = ((r, buf), w1)"
    by (metis surj_pair)
  note ev = on_file_def rd c_string_id [OF name] Let_def
  show ?thesis
  proof (cases ?ent)
    case None
    have "s_zone st' = s_zone st"
    proof (cases "key_from_path name")
      case None
      then show ?thesis using run by (auto simp: on_file_def)
    next
      case (Some key)
      have "Option.bind r (\<lambda>n. find_header (take n buf) (sc_header sc)) = None"
      proof (rule ccontr)
        assume "Option.bind r (\<lambda>n. find_header (take n buf) (sc_header sc)) \<noteq> None"
        then obtain n where n: "r = Some n" "find_header (take n buf) (sc_header sc) \<noteq> None"
          by (auto split: bind_splits)
        then show False using read_sound(3) [OF rd n(1)] Some \<open>?ent = None\<close> sc(2)
          by (auto simp: entry_at_def)
      qed
      then show ?thesis using run Some by (auto simp: ev split: option.splits bind_splits)
    qed
    then show ?thesis using rel None by (simp add: scan_lru1_def)
  next
    case (Some y)
    obtain key ts where y: "y = (key, ts)" by fastforce
    obtain d b v where d: "key_from_path name = Some key" "files (s_os st) name = Some d"
      "stored_block S MAX_HEADER_BLOCK d = Some b" "find_header b (sc_header sc) = Some v" "ts = split_tags v"
      using Some y by (auto simp: entry_at_def split: option.splits)
    have "r \<noteq> None" using read_complete [of name "sc_buf sc" "s_os st" buf w1 d] rd d sc(2) by auto
    then obtain n where n: "r = Some n" by auto
    have b: "take n buf = b" using read_sound(3) [OF rd n] d sc(2) by auto
    show ?thesis
    proof (cases "sc_tag sc \<in> set ts")
      case True
      then have "s_zone st' = s_zone st"
        using run d n b by (auto simp: ev list_ex_iff split: option.splits prod.splits)
      then show ?thesis using rel Some y True by (simp add: scan_lru1_def)
    next
      case False
      then have no: "\<not> list_ex (\<lambda>t. t = sc_tag sc) (split_tags v)" using d(5) by (auto simp: list_ex_iff)
      obtain z' where z': "insert_each (zone_insert N) key ts (s_zone st) = Some (list_ex tag_accepted ts, z')"
        "zone_rel N ring map_ok z' (lru_record_all key ts L)"
        using ngx_room.zone_insert_each_room [OF room rel] by blast
      then have "s_zone st' = z'" using run d n b no sc(1) by (auto simp: ev)
      then show ?thesis using z'(2) Some y False by (simp add: scan_lru1_def)
    qed
  qed
qed

lemma walk_files_room:
  "ngx_room N ring map_ok \<Longrightarrow> site_rel t st L \<Longrightarrow> \<forall>x\<in>set ns. 0 \<notin> set x \<Longrightarrow> distinct ns \<Longrightarrow>
   sc_index sc \<Longrightarrow> length (sc_buf sc) = MAX_HEADER_BLOCK \<Longrightarrow>
   walk_files N S e ns (sc, st) = Some (sc', st') \<Longrightarrow>
   zone_rel N ring map_ok (s_zone st') (scan_lru S (sc_header sc) (files (s_os st)) (sc_tag sc) ns L)"
proof (induction ns arbitrary: sc st L)
  case (Cons name ns)
  have names: "0 \<notin> set name" "\<forall>x\<in>set ns. 0 \<notin> set x" "distinct ns" "name \<notin> set ns"
    using Cons.prems(3,4) by simp_all
  let ?F = "files (s_os st)"
  obtain sc1 st1 L1 n1 where 1: "on_file N S e name (sc, st) = Some (sc1, st1)" "site_rel t st1 L1"
    "file_step e (sc_tag sc) name (read_entry S sc ?F name (s_os st))
        (unlink_ok S sc name (s_os st)) (site_abs t st L) (site_abs t st1 L1) n1"
    "scan_frame sc sc1 1 n1"
    using on_file_step [OF Cons.prems(2) names(1), of e sc]
    by (elim exE conjE) (rule that, assumption, (intro conjI; assumption), assumption+)
  have same: "sc_tag sc1 = sc_tag sc" "sc_header sc1 = sc_header sc" "sc_index sc1 = sc_index sc"
      "length (sc_buf sc1) = length (sc_buf sc)"
    using 1(4) by (simp_all add: scan_frame_def)
  have files: "\<forall>x\<in>set ns. files (s_os st1) x = ?F x"
    using 1(3) names(4) by (auto simp: file_step_def split: option.splits if_splits)
  have z1: "zone_rel N ring map_ok (s_zone st1) (scan_lru1 S (sc_header sc) ?F (sc_tag sc) L name)"
    using on_file_room [OF Cons.prems(1) _ names(1) Cons.prems(5,6) 1(1)] Cons.prems(2) by blast
  have "site_rel t st1 (scan_lru1 S (sc_header sc) ?F (sc_tag sc) L name)" using z1 1(2) by blast
  moreover have "sc_index sc1" "length (sc_buf sc1) = MAX_HEADER_BLOCK" "walk_files N S e ns (sc1, st1) = Some (sc', st')"
    using same Cons.prems(5-7) 1(1) by simp_all
  ultimately have "zone_rel N ring map_ok (s_zone st')
      (scan_lru S (sc_header sc1) (files (s_os st1)) (sc_tag sc1) ns
        (scan_lru1 S (sc_header sc) ?F (sc_tag sc) L name))"
    using Cons.IH [OF Cons.prems(1) _ names(2,3)] by blast
  then show ?case using scan_lru_cong [OF files, of S] same by simp
qed simp

text \<open>
  After a scan the index covers any tag that keeps within the cap, when the files that carry
  it lie where NGINX puts them.
\<close>

lemma purge_rebuilds:
  assumes room: "ngx_room N ring map_ok"
    and req: "purge_request r tag" and set: "purge_setup conf w xmcf xlcf i fc"
    and at: "cache_at fc p" and rel: "zone_rel N ring map_ok (w_zone w) L"
    and tree: "cache_ok (fc_tree fc) t"
    and miss: "map_of L tag = None" and on: "fallback xlcf \<noteq> 0"
    and B: "finite B" "card B \<le> MAX_KEYS_PER_TAG" and acc: "tag_accepted u"
    and keys: "\<forall>k. (u, k) \<in> lru_pairs L \<union> file_pairs S (header xmcf) (files (w_os w)) \<longrightarrow> k \<in> B"
    and place: "\<forall>x k. in_dir (p_name p) x \<and> files (w_os w) x \<noteq> None \<and> key_from_path x = Some k
      \<longrightarrow> x = cache_file dirs p k"
  shows "\<exists>ans w' fc' L'. purge_handler N S e conf r w = Some (ans, w') \<and> zone_rel N ring map_ok (w_zone w') L'
    \<and> index_covers S dirs (header xmcf) p (files (w_os w')) u L'
    \<and> (\<forall>k. (u, k) \<in> lru_pairs L' \<longrightarrow> k \<in> B)
    \<and> w_caches w' i = Some fc' \<and> cache_at fc' p \<and> cache_ok (fc_tree fc') t
    \<and> (\<forall>x. carries S MAX_HEADER_BLOCK (header xmcf) (files (w_os w)) tag x \<or> files (w_os w') x = files (w_os w) x)"
proof -
  let ?F = "files (w_os w)" and ?hdr = "header xmcf"
  obtain ns buf z1 w1 where ns: "distinct ns" "\<forall>x\<in>set ns. 0 \<notin> set x"
    "\<forall>x. ?F x \<noteq> None \<longrightarrow> in_dir (p_name p) x \<longrightarrow> x \<in> set ns"
    and st0: "length buf = MAX_HEADER_BLOCK" "zone_rel N ring map_ok z1 L" "files w1 = ?F"
    and run: "\<And>sc st. walk_files N S e ns (init_scan tag xmcf buf,
          \<lparr>s_zone = z1, s_tree = fc_tree fc, s_os = w1\<rparr>) = Some (sc, st) \<Longrightarrow>
        purge_handler N S e conf r w =
          Some (scan_answer sc (zone_pressure (s_zone st)) (log_calls [DiscardRequestBody] r),
                put_site i fc st w)"
    using purge_scan_run [OF req set at rel miss on] by metis
  let ?s = "init_scan tag xmcf buf"
  let ?st = "\<lparr>s_zone = z1, s_tree = fc_tree fc, s_os = w1\<rparr>"
  obtain sc st L1 where scan: "walk_files N S e ns (?s, ?st) = Some (sc, st)"
    "scan_exact e (entry_at S (length (sc_buf ?s)) (sc_header ?s) (files (s_os ?st))) (sc_tag ?s) ns
       (files (s_os ?st), live_keys (s_tree ?st) t, lru_pairs L)
       (files (s_os st), live_keys (s_tree st) t, lru_pairs L1)" "cache_ok (s_tree st) t"
    using walk_files_exact [of ?st L t ns e ?s, OF _ ns(2,1)] st0(2) tree by auto
  have F': "files (s_os st) x = (if x \<in> set ns \<and> carries S MAX_HEADER_BLOCK ?hdr ?F tag x then None else ?F x)" for x
    using scan(2) st0 by (simp add: scan_exact_def entry_hit_carries init_scan_def)
  let ?L = "scan_lru S ?hdr ?F tag ns L"
  have z': "zone_rel N ring map_ok (s_zone st) ?L"
    using walk_files_room [OF room _ ns(2,1) _ _ scan(1), where t = t and L = L] st0 tree by (simp add: init_scan_def)
  have "\<exists>k. (u, k) \<in> lru_pairs ?L \<and> x = cache_file dirs p k"
    if x: "in_dir (p_name p) x" "carries S MAX_HEADER_BLOCK ?hdr (files (s_os st)) u x" for x
  proof -
    have old: "files (s_os st) x = ?F x" "?F x \<noteq> None"
      using carries_file [OF x(2)] F' [of x] by (auto split: if_splits)
    then have mem: "x \<in> set ns" using ns(3) x(1) by blast
    have u: "carries S MAX_HEADER_BLOCK ?hdr ?F u x"
      using x(2) carries_cong [of "files (s_os st)" x ?F S MAX_HEADER_BLOCK ?hdr u] old(1) by simp
    have "\<not> carries S MAX_HEADER_BLOCK ?hdr ?F tag x" using old F' [of x] mem by (auto split: if_splits)
    then obtain k ts where k: "entry_at S MAX_HEADER_BLOCK ?hdr ?F x = Some (k, ts)" "u \<in> set ts" "tag \<notin> set ts"
      using u by (auto simp: carries_def split: option.splits)
    then have "(u, k) \<in> kept_pairs (entry_at S MAX_HEADER_BLOCK ?hdr ?F) tag ns"
      using mem by (auto simp: kept_pairs_def)
    then have "(u, k) \<in> lru_pairs ?L"
      using keys by (intro scan_lru_pairs [OF B acc _ zone_rel_ok [OF rel]]) auto
    moreover have "x = cache_file dirs p k" using place x(1) old(2) entry_at_key [OF k(1)] by blast
    ultimately show ?thesis by blast
  qed
  then have "index_covers S dirs ?hdr p (files (s_os st)) u ?L" by (simp add: index_covers_def)
  moreover have "\<forall>k. (u, k) \<in> lru_pairs ?L \<longrightarrow> k \<in> B"
    by (rule scan_lru_within [OF B _ zone_rel_ok [OF rel]]) (use keys in auto)
  moreover have "cache_at (fc\<lparr>fc_tree := s_tree st\<rparr>) p" using at by (simp add: cache_at_def)
  ultimately show ?thesis using run [OF scan(1)] z' scan(3) F'
    by (intro exI [of _ "scan_answer sc (zone_pressure (s_zone st)) (log_calls [DiscardRequestBody] r)"]
        exI [of _ "put_site i fc st w"] exI [of _ "fc\<lparr>fc_tree := s_tree st\<rparr>"] exI [of _ ?L]) simp
qed

text \<open>The purge after a scan: answered from the index, and complete.\<close>

lemma purge_after_scan:
  assumes room: "ngx_room N ring map_ok"
    and req: "purge_request r tag" and set: "purge_setup conf w xmcf xlcf i fc"
    and at: "cache_at fc p" and rel: "zone_rel N ring map_ok (w_zone w) L"
    and tree: "cache_ok (fc_tree fc) t"
    and miss: "map_of L tag = None" and on: "fallback xlcf \<noteq> 0"
    and B: "finite B" "card B \<le> MAX_KEYS_PER_TAG" "\<forall>k\<in>B. key_ok k" and acc: "tag_accepted u"
    and keys: "\<forall>k. (u, k) \<in> lru_pairs L \<union> file_pairs S (header xmcf) (files (w_os w)) \<longrightarrow> k \<in> B"
    and place: "\<forall>x k. in_dir (p_name p) x \<and> files (w_os w) x \<noteq> None \<and> key_from_path x = Some k
      \<longrightarrow> x = cache_file dirs p k"
    and req2: "purge_request r2 u"
    and x: "in_dir (p_name p) x" "carries S MAX_HEADER_BLOCK (header xmcf) (files (w_os w)) u x"
      "\<not> carries S MAX_HEADER_BLOCK (header xmcf) (files (w_os w)) tag x"
  shows "\<exists>ans w' rc r' w2. purge_handler N S e conf r w = Some (ans, w')
    \<and> purge_handler N S e conf r2 w' = Some ((rc, r'), w2)
    \<and> AddHeaderOut (bytes_of ''x-purge-source'') (bytes_of ''index'') \<in> set (r_calls r')
    \<and> purged_clean S (header xmcf) p (files (w_os w2)) u"
proof -
  let ?hdr = "header xmcf"
  obtain ans w' and fc' :: file_cache and L' where one: "purge_handler N S e conf r w = Some (ans, w')"
    "zone_rel N ring map_ok (w_zone w') L'" "index_covers S dirs ?hdr p (files (w_os w')) u L'"
    "\<forall>k. (u, k) \<in> lru_pairs L' \<longrightarrow> k \<in> B" "w_caches w' i = Some fc'" "cache_at fc' p" "cache_ok (fc_tree fc') t"
    "\<forall>x. carries S MAX_HEADER_BLOCK ?hdr (files (w_os w)) tag x \<or> files (w_os w') x = files (w_os w) x"
    using purge_rebuilds [OF room req set at rel tree miss on B(1,2) acc keys place, of e]
    by (elim exE conjE) (rule that; assumption)
  have set': "purge_setup conf w' xmcf xlcf i fc'" using set one(5) by (simp add: purge_setup_def)
  have "files (w_os w') x = files (w_os w) x" using one(8) x(3) by blast
  then have "carries S MAX_HEADER_BLOCK ?hdr (files (w_os w')) u x"
    using x(2) carries_cong [of "files (w_os w')" x "files (w_os w)" S MAX_HEADER_BLOCK ?hdr u] by simp
  then obtain k where "(u, k) \<in> lru_pairs L'" using one(3) x(1) unfolding index_covers_def by blast
  then obtain ks where ks: "map_of L' u = Some ks" by (auto simp: lru_pairs_iff)
  have ok: "\<forall>k\<in>set ks. key_ok k" using one(4) ks B(3) by (auto simp: lru_pairs_iff)
  obtain w2 where two: "purge_handler N S e conf r2 w' =
      Some ((send_result r2, log_calls ([DiscardRequestBody]
          @ report_calls (bytes_of ''index'')
              (of_nat (length (filter (\<lambda>k. nkey_of e k \<in> live_keys (fc_tree fc') t
                 \<or> files (w_os w') (cache_file dirs p k) \<noteq> None) ks)))
              None (zone_pressure (w_zone w')) @ no_content_calls) r2), w2)"
    "files (w_os w2) = (\<lambda>x. if x \<in> cache_file dirs p ` set ks then None else files (w_os w') x)"
    using purge_hit_exact [OF req2 set' one(6,2,7) ks ok, of e] by blast
  have "purged_clean S ?hdr p (files (w_os w2)) u"
    unfolding purged_clean_def
  proof (intro allI impI notI)
    fix y assume y: "in_dir (p_name p) y" "carries S MAX_HEADER_BLOCK ?hdr (files (w_os w2)) u y"
    have "files (w_os w2) y \<noteq> None" by (rule carries_file [OF y(2)])
    then have f: "files (w_os w2) y = files (w_os w') y" "y \<notin> cache_file dirs p ` set ks"
      unfolding two(2) by (auto split: if_splits)
    then have "carries S MAX_HEADER_BLOCK ?hdr (files (w_os w')) u y"
      using y(2) carries_cong [of "files (w_os w2)" y "files (w_os w')" S MAX_HEADER_BLOCK ?hdr u] by simp
    then show False using one(3) y(1) f(2) ks by (auto simp: index_covers_def lru_pairs_iff)
  qed
  then show ?thesis using one(1) two(1)
    by (intro exI [of _ ans] exI [of _ w'] exI conjI) (assumption | simp add: report_calls_def)+
qed

end

end
