(* ===== verification/Status_Report.thy ===== *)
theory Status_Report
  imports Purge_Complete
begin

text \<open>
  The status endpoint (\<open>src/status.rs\<close>): the index's counters as a JSON document, written into
  a string whose room was reserved before. The lemmas bound the document by that room, show
  that no counter is lost in it, and relate the counters to the list of tags.
\<close>

section \<open>The document\<close>

text \<open>
  What the report reads besides the index: the zone's size and the slab's page area, NGINX's
  page size, the capacity the reserved string got (None when the pool has no memory), and
  whether the pool can make a buffer.
\<close>

record status_env =
  shm_size :: usize
  pool_start :: usize
  pool_end :: usize
  pool_pfree :: usize
  ngx_pagesize :: usize
  try_reserve :: "nat \<Rightarrow> nat option"
  create_buffer :: bool

record snapshot =
  sn_size :: usize
  sn_pages_total :: usize
  sn_pages_free :: usize
  sn_tags :: usize
  sn_keys :: usize
  sn_evictions :: u64
  sn_key_drops :: u64

definition num :: "64 word \<Rightarrow> bytes" where
  "num n = decimal (unat n)"

definition snapshot_doc :: "snapshot \<Rightarrow> bytes" where
  "snapshot_doc s =
     bytes_of ''{\"configured\":true,''
     @ bytes_of ''\"zone\":{\"size\":'' @ num (sn_size s)
     @ bytes_of '',\"pages_total\":'' @ num (sn_pages_total s)
     @ bytes_of '',\"pages_free\":'' @ num (sn_pages_free s) @ bytes_of ''},''
     @ bytes_of ''\"index\":{\"tags\":'' @ num (sn_tags s)
     @ bytes_of '',\"keys\":'' @ num (sn_keys s)
     @ bytes_of '',\"evictions\":'' @ num (sn_evictions s)
     @ bytes_of '',\"key_drops\":'' @ num (sn_key_drops s) @ bytes_of '',''
     @ bytes_of ''\"max_keys_per_tag\":'' @ decimal MAX_KEYS_PER_TAG @ bytes_of ''}}'' @ [10]"

definition unconfigured_doc :: bytes where
  "unconfigured_doc = bytes_of ''{\"configured\":false}'' @ [10]"

text \<open>\<open>write!\<close> on a string of a fixed capacity: it fails when the text does not fit.\<close>

definition write_within :: "nat \<Rightarrow> bytes \<Rightarrow> bytes option" where
  "write_within cap doc = (if length doc \<le> cap then Some doc else None)"

definition take_snapshot :: "status_env \<Rightarrow> ('m, 'q) tag_index \<Rightarrow> snapshot" where
  "take_snapshot V ti =
     \<lparr>sn_size = shm_size V, sn_pages_total = (pool_end V - pool_start V) div ngx_pagesize V,
      sn_pages_free = pool_pfree V, sn_tags = ti_tags ti, sn_keys = ti_keys ti,
      sn_evictions = ti_evicted ti, sn_key_drops = ti_dropped ti\<rparr>"

section \<open>The handler\<close>

definition status_report ::
  "('a, 'm, 'q) ngx \<Rightarrow> status_env \<Rightarrow> conf \<Rightarrow> ('a, 'm, 'q) zone \<Rightarrow> bytes option \<times> ('a, 'm, 'q) zone" where
  "status_report N V conf z =
     (case try_reserve V 512 of
        None \<Rightarrow> (None, z)
      | Some cap \<Rightarrow>
     (case main_conf conf of
        None \<Rightarrow> (None, z)
      | Some xmcf \<Rightarrow>
          if shm_zone xmcf = None then (write_within cap unconfigured_doc, z)
          else
            (case shared N z of
               (Inl e, z') \<Rightarrow> (None, z')
             | (Inr ti, z') \<Rightarrow>
            (case z_slab z' of
               None \<Rightarrow> (None, z')
             | Some alloc \<Rightarrow> (write_within cap (snapshot_doc (take_snapshot V ti)), z')))))"

definition send_body :: "status_env \<Rightarrow> request \<Rightarrow> bytes \<Rightarrow> int \<times> request" where
  "send_body V r body =
     (if \<not> create_buffer V then (NGX_ERROR, r)
      else (r_output_rc r, log_call (OutputFilter body (r_main r)) r))"

definition status_handler ::
  "('a, 'm, 'q) ngx \<Rightarrow> status_env \<Rightarrow> conf \<Rightarrow> request \<Rightarrow> ('a, 'm, 'q) zone \<Rightarrow>
   (int \<times> request) \<times> ('a, 'm, 'q) zone" where
  "status_handler N V conf r z =
     (if r_method r \<noteq> GET \<and> r_method r \<noteq> HEAD
      then ((HTTP_NOT_ALLOWED, add_header_out (bytes_of ''allow'') (bytes_of ''GET, HEAD'') r), z)
      else
        (let (rc, r1) = discard_request_body r in
         if rc \<noteq> NGX_OK then ((rc, r1), z)
         else
           (case status_report N V conf z of
              (None, z') \<Rightarrow> ((NGX_ERROR, r1), z')
            | (Some body, z') \<Rightarrow>
                (let r2 = log_call (SetContentLengthN (length body)) (log_call (SetStatus HTTP_OK) r1);
                     r3 = add_header_out (bytes_of ''content-type'') (bytes_of ''application/json'') r2;
                     (rc, r4) = send_header r3
                 in if rc = NGX_ERROR \<or> NGX_OK < rc \<or> r_header_only r4 then ((rc, r4), z')
                    else if \<not> utf8_valid body then ((NGX_ERROR, r4), z')
                    else (send_body V r4 body, z')))))"

section \<open>Lemmas\<close>

lemma length_num: "length (num n) \<le> 20"
proof -
  have "unat n < 10 ^ 20" using unsigned_less [where w = n, where 'a = nat] by simp
  then show ?thesis unfolding num_def by (intro length_decimal) simp_all
qed

lemma max_keys_decimal: "decimal MAX_KEYS_PER_TAG = bytes_of ''65536''"
  by (simp add: MAX_KEYS_PER_TAG_def decimal.simps)

lemma snapshot_doc_fits: "length (snapshot_doc s) \<le> 512"
proof -
  have "length (snapshot_doc s) = 143 + length (num (sn_size s)) + length (num (sn_pages_total s))
      + length (num (sn_pages_free s)) + length (num (sn_tags s)) + length (num (sn_keys s))
      + length (num (sn_evictions s)) + length (num (sn_key_drops s))"
    by (simp add: snapshot_doc_def max_keys_decimal)
  then show ?thesis
    using length_num [of "sn_size s"] length_num [of "sn_pages_total s"]
      length_num [of "sn_pages_free s"] length_num [of "sn_tags s"] length_num [of "sn_keys s"]
      length_num [of "sn_evictions s"] length_num [of "sn_key_drops s"] by linarith
qed

text \<open>Reading a number off the front of a text.\<close>

definition is_digit :: "u8 \<Rightarrow> bool" where
  "is_digit c \<longleftrightarrow> 48 \<le> c \<and> c \<le> 57"

lemma num_inj: "num a = num b \<longleftrightarrow> a = b"
  by (auto simp: num_def word_unat_eq_iff dest: decimal_inj)

lemma num_append_inj:
  assumes "num a @ c # s = num b @ d # t" "\<not> is_digit c" "\<not> is_digit d"
  shows "a = b \<and> c # s = d # t"
proof -
  have dig: "\<forall>x\<in>set (num n). is_digit x" for n
    unfolding num_def is_digit_def by (rule decimal_digits)
  have tw: "takeWhile is_digit (num n @ x # u) = num n" if "\<not> is_digit x" for n x u
    using dig [of n] that by (simp add: takeWhile_append2)
  have n: "num a = num b" using tw [OF assms(2), of a s] tw [OF assms(3), of b t] assms(1) by simp
  then have "a = b" by (simp add: num_inj)
  then show ?thesis using assms(1) by simp
qed

lemma snapshot_doc_inj:
  assumes "snapshot_doc s = snapshot_doc s'"
  shows "s = s'"
proof -
  note eq = assms [unfolded snapshot_doc_def bytes_of_simps append.simps append_assoc]
  have digit: "\<not> is_digit 44" "\<not> is_digit 125" by (simp_all add: is_digit_def)
  have "sn_size s = sn_size s' \<and> sn_pages_total s = sn_pages_total s'
     \<and> sn_pages_free s = sn_pages_free s' \<and> sn_tags s = sn_tags s' \<and> sn_keys s = sn_keys s'
     \<and> sn_evictions s = sn_evictions s' \<and> sn_key_drops s = sn_key_drops s'"
    using eq by (auto dest!: num_append_inj simp: digit num_inj)
  then show ?thesis by simp
qed

lemma status_handler_method:
  "r_method r \<noteq> GET \<Longrightarrow> r_method r \<noteq> HEAD \<Longrightarrow> status_handler N V conf r z =
     ((HTTP_NOT_ALLOWED, log_calls [AddHeaderOut (bytes_of ''allow'') (bytes_of ''GET, HEAD'')] r), z)"
  by (simp add: status_handler_def add_header_out_def)

lemma status_report_zone:
  "snd (status_report N V conf z) = z \<or> snd (status_report N V conf z) = snd (shared N z)"
  by (auto simp: status_report_def split: option.split prod.split sum.split)

lemma status_handler_zone:
  "snd (status_handler N V conf r z) = z \<or> snd (status_handler N V conf r z) = snd (shared N z)"
proof -
  obtain b z' where b: "status_report N V conf z = (b, z')" by (metis surj_pair)
  have "snd (status_handler N V conf r z) \<in> {z, z'}"
    by (simp add: status_handler_def discard_request_body_def send_header_def Let_def b
        split: option.split)
  then show ?thesis using status_report_zone [of N V conf z] b by auto
qed

lemma num_ascii: "c \<in> set (num n) \<Longrightarrow> c < 128"
proof -
  assume "c \<in> set (num n)"
  then have "c \<le> 57" using decimal_digits by (auto simp: num_def)
  then show "c < 128" by (rule order.strict_trans1) simp
qed

lemma snapshot_doc_utf8: "utf8_valid (snapshot_doc s)"
  by (rule utf8_valid_ascii) (auto simp: snapshot_doc_def max_keys_decimal dest: num_ascii)

text \<open>The calls of a full answer.\<close>

definition status_calls :: "bytes \<Rightarrow> call list" where
  "status_calls doc =
     [DiscardRequestBody, SetStatus HTTP_OK, SetContentLengthN (length doc),
      AddHeaderOut (bytes_of ''content-type'') (bytes_of ''application/json''), SendHeader]"

context ngx_env
begin

lemma status_handler_ok:
  assumes rel: "zone_rel N ring map_ok z L"
    and conf: "main_conf conf = Some xmcf" "shm_zone xmcf \<noteq> None"
    and req: "r_method r = GET" "r_discard_rc r = NGX_OK" "r_send_rc r = NGX_OK" "\<not> r_header_only r"
    and env: "try_reserve V 512 = Some cap" "512 \<le> cap" "create_buffer V"
  shows "\<exists>s. status_handler N V conf r z =
      ((r_output_rc r, log_calls (status_calls (snapshot_doc s)
          @ [OutputFilter (snapshot_doc s) (r_main r)]) r), z)
    \<and> sn_tags s = of_nat (length L) \<and> sn_keys s = of_nat (key_count L)
    \<and> \<lparr>evicted = sn_evictions s, dropped = sn_key_drops s\<rparr> = zone_pressure z"
proof -
  obtain ti ps where z: "z_data z = Some ti" "z_slab z \<noteq> None"
    and ok: "index_ok N ring map_ok ti ps" and L: "L = index_view ti ps"
    using rel by (auto simp: zone_rel_def)
  have sh: "shared N z = (Inr ti, z)" using shared_adopts [OF rel] z(1) by auto
  let ?s = "take_snapshot V ti"
  have fit: "length (snapshot_doc ?s) \<le> cap" using snapshot_doc_fits [of ?s] env(2) by linarith
  have "status_report N V conf z = (Some (snapshot_doc ?s), z)"
    using env(1) conf sh z(2) fit by (auto simp: status_report_def write_within_def)
  then have "status_handler N V conf r z =
      ((r_output_rc r, log_calls (status_calls (snapshot_doc ?s)
          @ [OutputFilter (snapshot_doc ?s) (r_main r)]) r), z)"
    using req env(3) snapshot_doc_utf8 [of ?s]
    by (simp add: status_handler_def discard_request_body_def add_header_out_def send_header_def
        send_body_def status_calls_def log_calls_def NGX_OK_def NGX_ERROR_def)
  moreover have "sn_tags ?s = of_nat (length L)" "sn_keys ?s = of_nat (key_count L)"
    using index_ok_tags [OF ok] index_ok_keys [OF ok] L by (simp_all add: take_snapshot_def)
  moreover have "\<lparr>evicted = sn_evictions ?s, dropped = sn_key_drops ?s\<rparr> = zone_pressure z"
    using z(1) by (simp add: take_snapshot_def zone_pressure_def)
  ultimately show ?thesis by blast
qed

end

end
