(* ===== verification/Module_System.thy ===== *)
theory Module_System
  imports Status_Report
begin

text \<open>
  The module as a transition system: a worker's steps are placing the index, recording a
  response, answering a purge and reporting the status; NGINX stores and drops cache files and nodes between them.
  \<open>world_ok\<close> is the invariant of the reachable worlds, and no operation faults in a world
  that satisfies it.
\<close>

section \<open>The invariant\<close>

text \<open>A zone before its index is placed stands for the empty list.\<close>

definition zone_state ::
  "('a, 'm, 'q) ngx \<Rightarrow> ('q \<Rightarrow> addr list \<Rightarrow> bool) \<Rightarrow> ('m \<Rightarrow> bool) \<Rightarrow>
   ('a, 'm, 'q) zone \<Rightarrow> lru \<Rightarrow> bool" where
  "zone_state N ring map_ok z L \<longleftrightarrow>
     zone_rel N ring map_ok z L \<or> z_data z = None \<and> L = []"

definition caches_ok :: "(zone_id \<Rightarrow> file_cache option) \<Rightarrow> bool" where
  "caches_ok cs \<longleftrightarrow>
     (\<forall>i fc. cs i = Some fc \<longrightarrow>
        (\<exists>t. cache_ok (fc_tree fc) t) \<and> (\<forall>p. fc_path fc = Some p \<longrightarrow> 0 \<notin> set (p_name p)))"

definition pairs_ok :: "lru \<Rightarrow> bool" where
  "pairs_ok L \<longleftrightarrow> (\<forall>(t, k)\<in>lru_pairs L. key_ok k)"

definition world_ok ::
  "('a, 'm, 'q) ngx \<Rightarrow> ('q \<Rightarrow> addr list \<Rightarrow> bool) \<Rightarrow> ('m \<Rightarrow> bool) \<Rightarrow>
   ('a, 'm, 'q, 'w) world \<Rightarrow> lru \<Rightarrow> bool" where
  "world_ok N ring map_ok w L \<longleftrightarrow>
     zone_state N ring map_ok (w_zone w) L \<and> pairs_ok L \<and> caches_ok (w_caches w)"

text \<open>A request's cache key is an array of \<open>CACHE_KEY_LEN\<close> bytes.\<close>

definition request_ok :: "request \<Rightarrow> bool" where
  "request_ok r \<longleftrightarrow> (\<forall>c. r_cache r = Some c \<longrightarrow> key_ok (cr_key c))"

section \<open>Steps\<close>

inductive module_step ::
  "('a, 'm, 'q) ngx \<Rightarrow> 'w os \<Rightarrow> endian \<Rightarrow> ('a, 'm, 'q, 'w) world \<Rightarrow> ('a, 'm, 'q, 'w) world \<Rightarrow> bool"
  for N S e where
  step_init: "zone_init N (w_zone w) = (rc, z) \<Longrightarrow> module_step N S e w (w\<lparr>w_zone := z\<rparr>)"
| step_record:
    "request_ok r \<Longrightarrow> record_response N conf r (w_zone w) = Some z \<Longrightarrow>
     module_step N S e w (w\<lparr>w_zone := z\<rparr>)"
| step_purge:
    "purge_handler N S e conf r w = Some (ans, w') \<Longrightarrow> module_step N S e w w'"
| step_status:
    "status_handler N V conf r (w_zone w) = (ans, z) \<Longrightarrow> module_step N S e w (w\<lparr>w_zone := z\<rparr>)"

text \<open>NGINX's own steps leave the index zone alone and the caches well-formed.\<close>

inductive step ::
  "('a, 'm, 'q) ngx \<Rightarrow> 'w os \<Rightarrow> endian \<Rightarrow> ('a, 'm, 'q, 'w) world \<Rightarrow> ('a, 'm, 'q, 'w) world \<Rightarrow> bool"
  for N S e where
  step_module: "module_step N S e w w' \<Longrightarrow> step N S e w w'"
| step_nginx:
    "caches_ok cs \<Longrightarrow> step N S e w (w\<lparr>w_caches := cs, w_os := os'\<rparr>)"

inductive_cases step_cases: "step N S e w w'"

inductive reachable ::
  "('a, 'm, 'q) ngx \<Rightarrow> 'w os \<Rightarrow> endian \<Rightarrow> ('a, 'm, 'q, 'w) world \<Rightarrow> ('a, 'm, 'q, 'w) world \<Rightarrow> bool"
  for N S e w0 where
  reach_start: "reachable N S e w0 w0"
| reach_step: "reachable N S e w0 w \<Longrightarrow> step N S e w w' \<Longrightarrow> reachable N S e w0 w'"

definition initial_world :: "('a, 'm, 'q, 'w) world \<Rightarrow> bool" where
  "initial_world w \<longleftrightarrow> z_data (w_zone w) = None \<and> caches_ok (w_caches w)"

section \<open>Operations that do not touch the index\<close>

lemma pairs_ok_subset: "lru_pairs L' \<subseteq> lru_pairs L \<union> P \<Longrightarrow> pairs_ok L \<Longrightarrow> (\<forall>(t, k)\<in>P. key_ok k) \<Longrightarrow> pairs_ok L'"
  unfolding pairs_ok_def by blast

lemma pairs_ok_Nil [simp]: "pairs_ok []"
  by (simp add: pairs_ok_def)

lemma kept_pairs_ok: "(t, k) \<in> kept_pairs (entry_at S room hdr F) tag ns \<Longrightarrow> key_ok k"
  by (auto simp: kept_pairs_def entry_at_def dest: key_from_path_ok split: option.splits)

lemma caches_ok_put:
  assumes "caches_ok cs" "cs i = Some fc" "cache_ok tree t"
  shows "caches_ok (cs(i \<mapsto> fc\<lparr>fc_tree := tree\<rparr>))"
  using assms by (auto simp: caches_ok_def)

lemma purge_keys_loop_no_path:
  "cache_ok tree t \<Longrightarrow> \<forall>k\<in>set ks. key_ok k \<Longrightarrow>
   \<exists>n tree'. purge_keys_loop S e None ks (n0, tree, w) = Some (n, tree', w) \<and> cache_ok tree' t"
proof (induction ks arbitrary: n0 tree)
  case (Cons k ks)
  then obtain b tree1 where 1: "invalidate e tree k = Some (b, tree1)" "cache_ok tree1 t"
    using invalidate_ok [of tree t k e] by auto
  then show ?case
    using Cons.IH [OF 1(2), of "if b then n0 + 1 else n0"] Cons.prems(2)
    by (simp add: delete_file_def)
qed simp

lemma purge_handler_adopt:
  assumes "index_for N conf (w_zone w) = (True, z)" "index_for N conf z = (True, z)"
  shows "purge_handler N S e conf r w = purge_handler N S e conf r (w\<lparr>w_zone := z\<rparr>)
    \<or> (\<exists>ans. purge_handler N S e conf r w = Some (ans, w))"
  using assms
  by (auto simp: purge_handler_def file_cache_def put_site_def Let_def split: option.splits prod.splits)

lemma record_response_adopt:
  assumes "shared N z = (x, z1)"
  shows "(case x of
      Inl err \<Rightarrow> record_response N conf r z = Some z \<or> record_response N conf r z = Some z1
    | Inr ti \<Rightarrow> (\<forall>ti'. shared N z1 = (Inr ti', z1) \<longrightarrow>
        record_response N conf r z = Some z
        \<or> record_response N conf r z = record_response N conf r z1))"
  using assms by (auto simp: record_response_def split: option.splits sum.splits)

lemma response_pairs_ok: "request_ok r \<Longrightarrow> (t, k) \<in> response_pairs conf r \<Longrightarrow> key_ok k"
  by (auto simp: response_pairs_def response_tags_def response_key_Some request_ok_def
      split: option.splits if_splits)

section \<open>No operation faults\<close>

context ngx_env
begin

lemma shared_state:
  assumes "zone_state N ring map_ok z L" "shared N z = (x, z')"
  shows "zone_state N ring map_ok z' L" and "\<not> isl x \<Longrightarrow> zone_rel N ring map_ok z' L"
proof -
  have "zone_state N ring map_ok z' L \<and> (\<not> isl x \<longrightarrow> zone_rel N ring map_ok z' L)"
  proof (cases "zone_rel N ring map_ok z L")
    case True
    then show ?thesis using shared_adopts [OF True] assms(2) by (auto simp: zone_state_def)
  next
    case False
    then have z: "z_data z = None" "L = []" using assms(1) by (auto simp: zone_state_def)
    show ?thesis
    proof (cases x)
      case (Inl err)
      then have "z_data z' = None"
        using assms(2) z(1)
        by (auto simp: shared_def Let_def split: option.splits prod.splits bool.splits)
      then show ?thesis using Inl z(2) by (simp add: zone_state_def)
    next
      case (Inr ti)
      then show ?thesis using shared_fresh [OF z(1)] assms(2) z(2) by (auto simp: zone_state_def)
    qed
  qed
  then show "zone_state N ring map_ok z' L" "\<not> isl x \<Longrightarrow> zone_rel N ring map_ok z' L" by auto
qed

lemma index_for_state:
  assumes "zone_state N ring map_ok z L" "index_for N conf z = (found, z')"
  shows "zone_state N ring map_ok z' L"
    and "found \<Longrightarrow> zone_rel N ring map_ok z' L \<and> index_for N conf z' = (True, z')"
proof -
  obtain x z1 where sh: "shared N z = (x, z1)" by (metis surj_pair)
  note st = shared_state [OF assms(1) sh]
  show "zone_state N ring map_ok z' L"
    using assms sh st(1) by (auto simp: index_for_def split: option.splits sum.splits if_splits)
  assume found
  then obtain xmcf ti where f: "main_conf conf = Some xmcf" "shm_zone xmcf \<noteq> None" "x = Inr ti" "z' = z1"
    using assms(2) sh by (auto simp: index_for_def split: option.splits sum.splits if_splits)
  then have "zone_rel N ring map_ok z' L" using st(2) by simp
  then show "zone_rel N ring map_ok z' L \<and> index_for N conf z' = (True, z')"
    using index_for_rel f(1,2) by blast
qed

lemma record_pairs:
  assumes z: "zone_state N ring map_ok z L"
  shows "\<exists>z' L'. record_response N conf r z = Some z' \<and> zone_state N ring map_ok z' L'
    \<and> lru_pairs L' \<subseteq> lru_pairs L \<union> response_pairs conf r \<and> (z_data z \<noteq> None \<longrightarrow> z_data z' \<noteq> None)"
proof -
  obtain x z1 where sh: "shared N z = (x, z1)" by (metis surj_pair)
  note st = shared_state [OF z sh]
  have placed: "z_data z \<noteq> None \<longrightarrow> z_data z1 \<noteq> None"
    using sh by (auto simp: shared_def split: option.splits)
  show ?thesis
  proof (cases x)
    case (Inl err)
    then show ?thesis
      using record_response_adopt [OF sh, of conf r] z st(1) placed by auto
  next
    case (Inr ti)
    then have rel: "zone_rel N ring map_ok z1 L" using st(2) by simp
    then obtain ti' where "shared N z1 = (Inr ti', z1)" using shared_adopts by blast
    then consider "record_response N conf r z = Some z"
      | "record_response N conf r z = record_response N conf r z1"
      using record_response_adopt [OF sh, of conf r] Inr by auto
    then show ?thesis
    proof cases
      case 1
      then show ?thesis using z by blast
    next
      case 2
      obtain z' L' where "record_response N conf r z1 = Some z'" "zone_rel N ring map_ok z' L'"
        "lru_pairs L' \<subseteq> lru_pairs L \<union> response_pairs conf r"
        using record_response_rel [OF rel, of conf r] by blast
      then show ?thesis using 2 by (auto simp: zone_state_def zone_rel_def)
    qed
  qed
qed

lemma record_state:
  assumes z: "zone_state N ring map_ok z L" and L: "pairs_ok L" and r: "request_ok r"
  shows "\<exists>z' L'. record_response N conf r z = Some z' \<and> zone_state N ring map_ok z' L' \<and> pairs_ok L'"
proof -
  have "\<forall>(t, k)\<in>response_pairs conf r. key_ok k" using response_pairs_ok [OF r] by blast
  then show ?thesis using record_pairs [OF z, of conf r] pairs_ok_subset [OF _ L] by blast
qed

end

context site_env
begin

lemma fall_back_safe:
  assumes set: "purge_setup conf w xmcf xlcf i fc" and rel: "zone_rel N ring map_ok (w_zone w) L"
    and L: "pairs_ok L" and cs: "caches_ok (w_caches w)"
  shows "\<exists>ans w' L'. fall_back N S e conf (i, fc) tag r w = Some (ans, w')
    \<and> zone_rel N ring map_ok (w_zone w') L' \<and> pairs_ok L' \<and> caches_ok (w_caches w')
    \<and> (\<forall>x. files (w_os w') x = files (w_os w) x \<or> files (w_os w') x = None)"
proof -
  have cf: "main_conf conf = Some xmcf" "location_conf conf = Some xlcf" "w_caches w i = Some fc"
    using set by (simp_all add: purge_setup_def)
  obtain t where t: "cache_ok (fc_tree fc) t" using cs cf(3) unfolding caches_ok_def by blast
  obtain m w1 where al: "pool_alloc S MAX_HEADER_BLOCK (w_os w) = (m, w1)" by (metis surj_pair)
  have f1: "files w1 = files (w_os w)" by (rule alloc_files [OF al])
  consider "fallback xlcf = 0" | "fallback xlcf \<noteq> 0" "m = None"
    | buf where "fallback xlcf \<noteq> 0" "m = Some buf" "fc_path fc = None"
    | buf p where "fallback xlcf \<noteq> 0" "m = Some buf" "fc_path fc = Some p" by blast
  then show ?thesis
  proof cases
    case 1
    then show ?thesis using rel L cs by (auto simp: fall_back_def cf)
  next
    case 2
    then have "fall_back N S e conf (i, fc) tag r w = Some ((NGX_ERROR, r), w\<lparr>w_os := w1\<rparr>)"
      using al by (simp add: fall_back_def cf)
    then show ?thesis using rel L cs f1 by force
  next
    case 3
    have ix: "index_for N conf (w_zone w) = (True, w_zone w)"
      using index_for_rel [OF rel cf(1)] set by (simp add: purge_setup_def)
    have "fall_back N S e conf (i, fc) tag r w = Some ((NGX_ERROR, r),
        put_site i fc \<lparr>s_zone = w_zone w, s_tree = fc_tree fc, s_os = w1\<rparr> w)"
      using 3 al by (simp add: fall_back_def cf ix run_def Let_def)
    then show ?thesis using rel L f1 caches_ok_put [OF cs cf(3) t] by force
  next
    case 4
    then have at: "cache_at fc p" using cs cf(3) by (auto simp: cache_at_def caches_ok_def)
    obtain ns rc where walk: "os_walk S (p_name p) w1 = (ns, rc)" by (metis surj_pair)
    have ns: "\<forall>x\<in>set ns. 0 \<notin> set x" using walk_names [of _ "p_name p" w1] walk by auto
    let ?s = "init_scan tag xmcf buf"
    let ?st = "\<lparr>s_zone = w_zone w, s_tree = fc_tree fc, s_os = w1\<rparr>"
    let ?ent = "entry_at S (length buf) (header xmcf) (files w1)"
    obtain sc st L' n where scan: "walk_files N S e ns (?s, ?st) = Some (sc, st)"
      "zone_rel N ring map_ok (s_zone st) L' \<and> cache_ok (s_tree st) t"
      "scan_sound e (entry_at S (length (sc_buf ?s)) (sc_header ?s) (files (s_os ?st))) (sc_tag ?s) ns
         (files (s_os ?st), live_keys (s_tree ?st) t, lru_pairs L)
         (files (s_os st), live_keys (s_tree st) t, lru_pairs L')"
      "scan_frame ?s sc (length ns) n"
      using walk_files_sound [of ?st L t ns e ?s, OF _ ns] rel t by auto
    have snd: "lru_pairs L' \<subseteq> lru_pairs L \<union> kept_pairs ?ent tag ns"
      "files (s_os st) x = files (w_os w) x \<or> files (s_os st) x = None" for x
      using scan(3) f1 by (auto simp: scan_sound_def init_scan_def)
    have "fall_back N S e conf (i, fc) tag r w =
        Some (if rc = NGX_ERROR then (NGX_ERROR, r) else scan_answer sc (zone_pressure (s_zone st)) r,
              put_site i fc st w)"
      by (rule fall_back_scan [OF set at rel 4(1) _ walk scan(1)]) (simp add: al 4)
    moreover have "pairs_ok L'" by (rule pairs_ok_subset [OF snd(1) L]) (auto dest: kept_pairs_ok)
    moreover have "caches_ok ((w_caches w)(i \<mapsto> fc\<lparr>fc_tree := s_tree st\<rparr>))"
      using caches_ok_put [OF cs cf(3)] scan(2) by blast
    ultimately show ?thesis
      using scan(2) snd(2)
      by (intro exI [of _ "if rc = NGX_ERROR then (NGX_ERROR, r)
            else scan_answer sc (zone_pressure (s_zone st)) r"] exI [of _ "put_site i fc st w"]
          exI [of _ L']) simp
  qed
qed

lemma purge_handler_safe:
  assumes rel: "zone_rel N ring map_ok (w_zone w) L" and L: "pairs_ok L" and cs: "caches_ok (w_caches w)"
  shows "\<exists>ans w' L'. purge_handler N S e conf r w = Some (ans, w')
    \<and> zone_rel N ring map_ok (w_zone w') L' \<and> pairs_ok L' \<and> caches_ok (w_caches w')
    \<and> (\<forall>x. files (w_os w') x = files (w_os w) x \<or> files (w_os w') x = None)"
proof (cases "\<exists>tag xmcf xlcf i fc. purge_request r tag \<and> purge_setup conf w xmcf xlcf i fc")
  case False
  have "\<exists>ans. purge_handler N S e conf r w = Some (ans, w)"
  proof (cases "\<exists>tag. purge_request r tag")
    case False
    then show ?thesis
      by (cases "is_purge r"; cases "r_discard_rc r = NGX_OK"; cases "purge_tag r")
        (auto simp: purge_request_def purge_handler_method purge_handler_bad purge_handler_discard)
  next
    case True
    then obtain tag where req: "purge_request r tag" by blast
    show ?thesis
    proof (cases "\<exists>xlcf i fc. location_conf conf = Some xlcf \<and> file_cache (cache_zone xlcf) w = Some (i, fc)")
      case True
      then obtain xlcf i fc where loc: "location_conf conf = Some xlcf"
        "file_cache (cache_zone xlcf) w = Some (i, fc)" by blast
      then have "main_conf conf = None \<or> (\<exists>xmcf. main_conf conf = Some xmcf \<and> shm_zone xmcf = None)"
        using \<open>\<not> (\<exists>tag xmcf xlcf i fc. purge_request r tag \<and> purge_setup conf w xmcf xlcf i fc)\<close> req
        by (auto simp: purge_setup_def file_cache_def split: option.splits)
      then have "index_for N conf (w_zone w) = (False, w_zone w)" by (auto simp: index_for_def)
      moreover have "purge_tag (log_calls [DiscardRequestBody] r) = Some tag"
        using req by (simp add: purge_request_def)
      ultimately show ?thesis
        using req loc by (simp add: purge_handler_def purge_request_def discard_request_body_def)
    next
      case False
      then have "location_conf conf = None \<or> (\<exists>xlcf. location_conf conf = Some xlcf
          \<and> file_cache (cache_zone xlcf) w = None)" by (metis option.exhaust surj_pair)
      then show ?thesis using purge_handler_no_cache [OF req] by blast
    qed
  qed
  then show ?thesis using rel L cs by blast
next
  case True
  then obtain tag xmcf xlcf i fc where req: "purge_request r tag"
    and set: "purge_setup conf w xmcf xlcf i fc" by blast
  have fc: "w_caches w i = Some fc" using set by (simp add: purge_setup_def)
  obtain t where t: "cache_ok (fc_tree fc) t" using cs fc unfolding caches_ok_def by blast
  have L': "pairs_ok (lru_remove tag L)" using L by (auto simp: pairs_ok_def lru_pairs_remove)
  obtain v z1 where v: "map_option items v = map_of L tag" "zone_rel N ring map_ok z1 (lru_remove tag L)"
    and run: "purge_handler N S e conf r w = taken_answer N S e conf i fc tag r w v z1"
    using purge_handler_taken [OF req set rel, of e] by blast
  show ?thesis
  proof (cases v)
    case None
    have set': "purge_setup conf (w\<lparr>w_zone := z1\<rparr>) xmcf xlcf i fc" using set by (simp add: purge_setup_def)
    show ?thesis
      using fall_back_safe [OF set', of "lru_remove tag L" e tag "log_calls [DiscardRequestBody] r"]
        v(2) L' cs unfolding run None by (simp add: taken_answer_def)
  next
    case (Some keys)
    have ks: "\<forall>k\<in>set (items keys). key_ok k"
    proof
      fix k assume "k \<in> set (items keys)"
      then have "(tag, k) \<in> lru_pairs L" using v(1) Some by (auto simp: lru_pairs_iff dest: sym)
      then show "key_ok k" using L unfolding pairs_ok_def by blast
    qed
    obtain n tree w1 where loop:
      "purge_keys_loop S e (fc_path fc) (items keys) (0, fc_tree fc, w_os w) = Some (n, tree, w1)"
      "cache_ok tree t" "\<forall>x. files w1 x = files (w_os w) x \<or> files w1 x = None"
    proof (cases "fc_path fc")
      case None
      then show thesis
        using purge_keys_loop_no_path [OF t ks, of S e 0 "w_os w"] that by auto
    next
      case (Some p)
      then have "0 \<notin> set (p_name p)" using cs fc by (auto simp: caches_ok_def)
      then obtain n tree w1 where "purge_keys_loop S e (Some p) (items keys) (0, fc_tree fc, w_os w) = Some (n, tree, w1)"
        "cache_ok tree t" "\<forall>x. files w1 x = files (w_os w) x
          \<or> files w1 x = None \<and> x \<in> cache_file dirs p ` set (items keys)"
        using purge_keys_loop_sound [OF t ks, of p e 0 "w_os w"] by blast
      then show thesis using that Some by metis
    qed
    then show ?thesis
      using v(2) L' caches_ok_put [OF cs fc loop(2)] zone_rel_slab [OF v(2)]
      unfolding run Some taken_answer_def by (force simp: Let_def)
  qed
qed

lemma purge_state:
  assumes "world_ok N ring map_ok w L"
  shows "\<exists>ans w' L'. purge_handler N S e conf r w = Some (ans, w') \<and> world_ok N ring map_ok w' L'
    \<and> (\<forall>x. files (w_os w') x = files (w_os w) x \<or> files (w_os w') x = None)"
proof -
  have z: "zone_state N ring map_ok (w_zone w) L" and L: "pairs_ok L" and cs: "caches_ok (w_caches w)"
    using assms by (simp_all add: world_ok_def)
  obtain found z1 where ix: "index_for N conf (w_zone w) = (found, z1)" by (metis surj_pair)
  note st = index_for_state [OF z ix]
  show ?thesis
  proof (cases found)
    case True
    then have rel: "zone_rel N ring map_ok z1 L" and ad: "index_for N conf z1 = (True, z1)"
      using st(2) by simp_all
    consider "purge_handler N S e conf r w = purge_handler N S e conf r (w\<lparr>w_zone := z1\<rparr>)"
      | ans where "purge_handler N S e conf r w = Some (ans, w)"
      using purge_handler_adopt [OF _ ad, of w S e r] ix True by auto
    then show ?thesis
    proof cases
      case 1
      then show ?thesis
        using purge_handler_safe [of "w\<lparr>w_zone := z1\<rparr>" L e conf r] rel L cs
        by (auto simp: world_ok_def zone_state_def)
    next
      case 2
      then show ?thesis using assms by auto
    qed
  next
    case False
    then have "\<exists>ans w'. purge_handler N S e conf r w = Some (ans, w') \<and> (w' = w \<or> w' = w\<lparr>w_zone := z1\<rparr>)"
      using ix by (auto simp: purge_handler_def Let_def split: option.splits prod.splits)
    then show ?thesis using assms st(1) by (auto simp: world_ok_def)
  qed
qed

section \<open>Reachable worlds\<close>

text \<open>A step of the module keeps the invariant and never makes or changes a file.\<close>

lemma module_step_ok:
  assumes "module_step N S e w w'" and ok: "world_ok N ring map_ok w L"
  shows "(\<exists>L'. world_ok N ring map_ok w' L')
    \<and> (\<forall>x. files (w_os w') x = files (w_os w) x \<or> files (w_os w') x = None)"
  using assms(1)
proof cases
  case (step_init rc z)
  obtain x where "shared N (w_zone w) = (x, z)"
    using step_init(2) by (auto simp: zone_init_def split: prod.splits sum.splits)
  moreover have "zone_state N ring map_ok (w_zone w) L" using ok by (simp add: world_ok_def)
  ultimately have "zone_state N ring map_ok z L" using shared_state(1) by blast
  then show ?thesis using ok step_init(1) by (auto simp: world_ok_def)
next
  case (step_record r conf z)
  then show ?thesis using record_state [of "w_zone w" L r conf] ok by (auto simp: world_ok_def)
next
  case (step_purge conf r ans)
  then show ?thesis using purge_state [OF ok, of e conf r] by auto
next
  case (step_status V conf r ans z)
  have "z = w_zone w \<or> z = snd (shared N (w_zone w))"
    using status_handler_zone [of N V conf r "w_zone w"] step_status(2) by simp
  moreover have "zone_state N ring map_ok (w_zone w) L" using ok by (simp add: world_ok_def)
  moreover from this have "zone_state N ring map_ok (snd (shared N (w_zone w))) L"
    using shared_state(1) by (metis prod.collapse)
  ultimately have "zone_state N ring map_ok z L" by auto
  then show ?thesis using ok step_status(1) by (auto simp: world_ok_def)
qed

lemma step_ok:
  "step N S e w w' \<Longrightarrow> world_ok N ring map_ok w L \<Longrightarrow> \<exists>L'. world_ok N ring map_ok w' L'"
  by (elim step_cases) (use module_step_ok in \<open>auto simp: world_ok_def\<close>)

lemma reachable_ok:
  "reachable N S e w0 w \<Longrightarrow> initial_world w0 \<Longrightarrow> \<exists>L. world_ok N ring map_ok w L"
proof (induction rule: reachable.induct)
  case reach_start
  then show ?case
    by (intro exI [of _ "[]"]) (simp add: initial_world_def world_ok_def zone_state_def)
next
  case (reach_step w w')
  then show ?case using step_ok by blast
qed

end

end
