(* ===== verification/Worker_Turns.thy ===== *)
theory Worker_Turns
  imports Module_System
begin

text \<open>
  The purge handler at the granularity of its locks (\<open>src/purge.rs\<close>, \<open>src/scan.rs\<close>). Several
  workers answer requests over the same shared memory and the same cache directory; between two
  critical sections of one purge any other worker, and NGINX itself, may run. A \<open>job\<close> is a purge
  in progress: what the handler holds on its stack between two sections. \<open>purge_turn\<close> runs one
  section: it looks at the request, takes the tag under the index lock, clears one node under
  the mutex of the cache, unlinks one file, reads one file, writes one file's tags back under
  the index lock, or answers.

  Left to run alone, a job gives what \<open>purge_handler\<close> gives (\<open>alone_purge_handler\<close>).
\<close>

section \<open>Jobs\<close>

text \<open>
  What stays the same from section to section: the configuration, the request with its body
  discarded, the tag's copy, the zone of the file cache.
\<close>

record purge_ctx =
  cx_conf :: conf
  cx_req :: request
  cx_tag :: bytes
  cx_cache :: zone_id

text \<open>
  \<open>Clearing\<close> and \<open>Unlinking\<close> are the loop over the keys, with the vector they came in, the
  pressure read with them, the keys to go and the count; \<open>Walking\<close> to \<open>Indexing\<close> the scan, with
  the names to go and the code the walk will return.
\<close>

datatype job =
    Arrived conf request
  | Taking purge_ctx
  | Clearing purge_ctx key_vec pressure "cache_key list" usize
  | Unlinking purge_ctx key_vec pressure cache_key bool "cache_key list" usize
  | Falling purge_ctx
  | Walking purge_ctx scan "bytes list" int
  | Invalidating purge_ctx scan bytes cache_key "bytes list" int
  | Removing purge_ctx scan bytes bool "bytes list" int
  | Indexing purge_ctx scan cache_key "bytes list" "bytes list" int
  | Answered int request

fun answered :: "job \<Rightarrow> bool" where
  "answered (Answered rc r) \<longleftrightarrow> True"
| "answered _ \<longleftrightarrow> False"

type_synonym ('a, 'm, 'q, 'w) turn = "(job \<times> ('a, 'm, 'q, 'w) world) option"

section \<open>Sections\<close>

text \<open>The checks of the handler, up to the index.\<close>

definition arrive_turn ::
  "('a, 'm, 'q) ngx \<Rightarrow> conf \<Rightarrow> request \<Rightarrow> ('a, 'm, 'q, 'w) world \<Rightarrow> ('a, 'm, 'q, 'w) turn" where
  "arrive_turn N conf r w =
     (if \<not> is_purge r
      then Some (Answered HTTP_NOT_ALLOWED (add_header_out (bytes_of ''allow'') (bytes_of ''PURGE'') r), w)
      else
        (let (rc, r1) = discard_request_body r in
         if rc \<noteq> NGX_OK then Some (Answered rc r1, w)
         else
        (case Option.bind (purge_tag r1) (\<lambda>tag. if length tag \<le> MAX_TAG_LEN then Some tag else None) of
           None \<Rightarrow> Some (Answered HTTP_BAD_REQUEST r1, w)
         | Some tag \<Rightarrow>
        (case location_conf conf of
           None \<Rightarrow> Some (Answered NGX_ERROR r1, w)
         | Some xlcf \<Rightarrow>
        (case file_cache (cache_zone xlcf) w of
           None \<Rightarrow> Some (Answered NGX_ERROR r1, w)
         | Some (i, fc) \<Rightarrow>
        (case index_for N conf (w_zone w) of
           (False, z) \<Rightarrow> Some (Answered NGX_ERROR r1, w\<lparr>w_zone := z\<rparr>)
         | (True, z) \<Rightarrow>
             Some (Taking \<lparr>cx_conf = conf, cx_req = r1, cx_tag = tag, cx_cache = i\<rparr>, w\<lparr>w_zone := z\<rparr>)))))))"

text \<open>The keys and the pressure, under one write lock.\<close>

definition take_turn ::
  "('a, 'm, 'q) ngx \<Rightarrow> purge_ctx \<Rightarrow> ('a, 'm, 'q, 'w) world \<Rightarrow> ('a, 'm, 'q, 'w) turn" where
  "take_turn N c w =
     (case zone_take N (cx_tag c) (w_zone w) of
        None \<Rightarrow> None
      | Some (None, z) \<Rightarrow> Some (Falling c, w\<lparr>w_zone := z\<rparr>)
      | Some (Some keys, z) \<Rightarrow> Some (Clearing c keys (zone_pressure z) (items keys) 0, w\<lparr>w_zone := z\<rparr>))"

text \<open>A file cache's node is cleared under its mutex, wherever the purge stands.\<close>

definition cleared_node ::
  "endian \<Rightarrow> zone_id \<Rightarrow> cache_key \<Rightarrow> ('a, 'm, 'q, 'w) world \<Rightarrow>
   (bool \<times> ('a, 'm, 'q, 'w) world) option" where
  "cleared_node e i key w =
     (case w_caches w i of
        None \<Rightarrow> None
      | Some fc \<Rightarrow>
          (case invalidate e (fc_tree fc) key of
             None \<Rightarrow> None
           | Some (cleared, tree) \<Rightarrow>
               Some (cleared, w\<lparr>w_caches := (w_caches w)(i \<mapsto> fc\<lparr>fc_tree := tree\<rparr>)\<rparr>)))"

text \<open>The end of a purge from the index: the report, the answer, the keys dropped.\<close>

definition index_answer ::
  "('a, 'm, 'q) ngx \<Rightarrow> purge_ctx \<Rightarrow> key_vec \<Rightarrow> pressure \<Rightarrow> usize \<Rightarrow> ('a, 'm, 'q, 'w) world \<Rightarrow>
   ('a, 'm, 'q, 'w) turn" where
  "index_answer N c keys pr purged w =
     (case report (bytes_of ''index'') purged None pr (cx_req c) of
        None \<Rightarrow> None
      | Some r \<Rightarrow>
          (let (rc, r') = no_content r; z = w_zone w
           in Some (Answered rc r', w\<lparr>w_zone := z\<lparr>z_slab := map_option (vec_drop N keys) (z_slab z)\<rparr>\<rparr>)))"

definition clear_turn ::
  "('a, 'm, 'q) ngx \<Rightarrow> endian \<Rightarrow> purge_ctx \<Rightarrow> key_vec \<Rightarrow> pressure \<Rightarrow> cache_key list \<Rightarrow> usize \<Rightarrow>
   ('a, 'm, 'q, 'w) world \<Rightarrow> ('a, 'm, 'q, 'w) turn" where
  "clear_turn N e c keys pr ks purged w =
     (case ks of
        [] \<Rightarrow> index_answer N c keys pr purged w
      | key # ks' \<Rightarrow>
          (case cleared_node e (cx_cache c) key w of
             None \<Rightarrow> None
           | Some (cleared, w') \<Rightarrow> Some (Unlinking c keys pr key cleared ks' purged, w')))"

definition unlink_turn ::
  "'w os \<Rightarrow> purge_ctx \<Rightarrow> key_vec \<Rightarrow> pressure \<Rightarrow> cache_key \<Rightarrow> bool \<Rightarrow> cache_key list \<Rightarrow> usize \<Rightarrow>
   ('a, 'm, 'q, 'w) world \<Rightarrow> ('a, 'm, 'q, 'w) turn" where
  "unlink_turn S c keys pr key cleared ks purged w =
     (case w_caches w (cx_cache c) of
        None \<Rightarrow> None
      | Some fc \<Rightarrow>
          (case delete_file S (fc_path fc) key (w_os w) of
             None \<Rightarrow> None
           | Some (unlinked, w1) \<Rightarrow>
               Some (Clearing c keys pr ks (if cleared \<or> unlinked then purged + 1 else purged),
                     w\<lparr>w_os := w1\<rparr>)))"

text \<open>The start of a scan: its buffer, the index to write back into, the names of the walk.\<close>

definition fall_turn ::
  "('a, 'm, 'q) ngx \<Rightarrow> 'w os \<Rightarrow> purge_ctx \<Rightarrow> ('a, 'm, 'q, 'w) world \<Rightarrow> ('a, 'm, 'q, 'w) turn" where
  "fall_turn N S c w =
     (case (main_conf (cx_conf c), location_conf (cx_conf c)) of
        (Some xmcf, Some xlcf) \<Rightarrow>
          if fallback xlcf = 0 then Some (Answered HTTP_NOT_FOUND (cx_req c), w)
          else
            (case pool_alloc S MAX_HEADER_BLOCK (w_os w) of
               (None, w1) \<Rightarrow> Some (Answered NGX_ERROR (cx_req c), w\<lparr>w_os := w1\<rparr>)
             | (Some buf, w1) \<Rightarrow>
                 (let (found, z) = index_for N (cx_conf c) (w_zone w);
                      s = \<lparr>sc_tag = cx_tag c, sc_header = header xmcf, sc_buf = buf,
                           sc_index = (found \<and> z_slab z \<noteq> None),
                           sc_scanned = 0, sc_purged = 0, sc_indexed = 0\<rparr>;
                      w2 = w\<lparr>w_zone := z, w_os := w1\<rparr>
                  in case w_caches w (cx_cache c) of
                       None \<Rightarrow> None
                     | Some fc \<Rightarrow>
                         (case fc_path fc of
                            None \<Rightarrow> Some (Answered NGX_ERROR (cx_req c), w2)
                          | Some p \<Rightarrow>
                              (let (names, rc) = os_walk S (p_name p) w1
                               in Some (Walking c s names rc, w2)))))
      | _ \<Rightarrow> Some (Answered NGX_ERROR (cx_req c), w))"

text \<open>One file is read; what it carries decides the next section.\<close>

definition read_turn ::
  "'w os \<Rightarrow> purge_ctx \<Rightarrow> scan \<Rightarrow> bytes \<Rightarrow> bytes list \<Rightarrow> int \<Rightarrow> ('a, 'm, 'q, 'w) world \<Rightarrow>
   job \<times> ('a, 'm, 'q, 'w) world" where
  "read_turn S c sc0 name names rc w =
     (let sc = sc0\<lparr>sc_scanned := sc_scanned sc0 + 1\<rparr> in
      case key_from_path name of
        None \<Rightarrow> (Walking c sc names rc, w)
      | Some key \<Rightarrow>
          (let path = c_string name;
               ((block_len, buf), w1) = read_header_block S path (sc_buf sc) (w_os w);
               sc1 = sc\<lparr>sc_buf := buf\<rparr>;
               next_job = (case block_len of
                   None \<Rightarrow> Walking c sc1 names rc
                 | Some n \<Rightarrow>
                     (case find_header (take n buf) (sc_header sc1) of
                        None \<Rightarrow> Walking c sc1 names rc
                      | Some tags \<Rightarrow>
                          if list_ex (\<lambda>t. t = sc_tag sc1) (split_tags tags)
                          then Invalidating c sc1 path key names rc
                          else if sc_index sc1 then Indexing c sc1 key (split_tags tags) names rc
                          else Walking c sc1 names rc))
           in (next_job, w\<lparr>w_os := w1\<rparr>)))"

text \<open>The end of a scan: the pressure under the read lock, the report, the answer.\<close>

definition scan_end ::
  "purge_ctx \<Rightarrow> scan \<Rightarrow> int \<Rightarrow> ('a, 'm, 'q, 'w) world \<Rightarrow> ('a, 'm, 'q, 'w) turn" where
  "scan_end c s rc w =
     (if rc = NGX_ERROR then Some (Answered NGX_ERROR (cx_req c), w)
      else
        (let scanned = Some (sc_scanned s, sc_indexed s);
             pr = (if sc_index s then zone_pressure (w_zone w) else \<lparr>evicted = 0, dropped = 0\<rparr>)
         in case report (bytes_of ''scan'') (sc_purged s) scanned pr (cx_req c) of
              None \<Rightarrow> None
            | Some r \<Rightarrow>
                if sc_purged s = 0 then Some (Answered HTTP_NOT_FOUND r, w)
                else (let (rc', r') = no_content r in Some (Answered rc' r', w))))"

definition remove_turn ::
  "'w os \<Rightarrow> purge_ctx \<Rightarrow> scan \<Rightarrow> bytes \<Rightarrow> bool \<Rightarrow> bytes list \<Rightarrow> int \<Rightarrow> ('a, 'm, 'q, 'w) world \<Rightarrow>
   job \<times> ('a, 'm, 'q, 'w) world" where
  "remove_turn S c s path cleared names rc w =
     (let (urc, w1) = os_unlink S path (w_os w); unlinked = (urc = 0)
      in (Walking c (if cleared \<or> unlinked then s\<lparr>sc_purged := sc_purged s + 1\<rparr> else s) names rc,
          w\<lparr>w_os := w1\<rparr>))"

definition index_turn ::
  "('a, 'm, 'q) ngx \<Rightarrow> purge_ctx \<Rightarrow> scan \<Rightarrow> cache_key \<Rightarrow> bytes list \<Rightarrow> bytes list \<Rightarrow> int \<Rightarrow>
   ('a, 'm, 'q, 'w) world \<Rightarrow> ('a, 'm, 'q, 'w) turn" where
  "index_turn N c s key tags names rc w =
     (case insert_each (zone_insert N) key tags (w_zone w) of
        None \<Rightarrow> None
      | Some (wrote, z) \<Rightarrow>
          Some (Walking c (if wrote then s\<lparr>sc_indexed := sc_indexed s + 1\<rparr> else s) names rc,
                w\<lparr>w_zone := z\<rparr>))"

fun purge_turn ::
  "('a, 'm, 'q) ngx \<Rightarrow> 'w os \<Rightarrow> endian \<Rightarrow> job \<Rightarrow> ('a, 'm, 'q, 'w) world \<Rightarrow> ('a, 'm, 'q, 'w) turn" where
  "purge_turn N S e (Arrived conf r) w = arrive_turn N conf r w"
| "purge_turn N S e (Taking c) w = take_turn N c w"
| "purge_turn N S e (Clearing c keys pr ks n) w = clear_turn N e c keys pr ks n w"
| "purge_turn N S e (Unlinking c keys pr key cleared ks n) w = unlink_turn S c keys pr key cleared ks n w"
| "purge_turn N S e (Falling c) w = fall_turn N S c w"
| "purge_turn N S e (Walking c s [] rc) w = scan_end c s rc w"
| "purge_turn N S e (Walking c s (name # names) rc) w = Some (read_turn S c s name names rc w)"
| "purge_turn N S e (Invalidating c s path key names rc) w =
     map_option (\<lambda>(cleared, w'). (Removing c s path cleared names rc, w')) (cleared_node e (cx_cache c) key w)"
| "purge_turn N S e (Removing c s path cleared names rc) w = Some (remove_turn S c s path cleared names rc w)"
| "purge_turn N S e (Indexing c s key tags names rc) w = index_turn N c s key tags names rc w"
| "purge_turn N S e (Answered rc r) w = Some (Answered rc r, w)"

section \<open>A job that runs alone\<close>

text \<open>\<open>ends N S e j w x\<close>: with nobody else running, the job's turns come to \<open>x\<close>.\<close>

primrec turns ::
  "('a, 'm, 'q) ngx \<Rightarrow> 'w os \<Rightarrow> endian \<Rightarrow> nat \<Rightarrow> ('a, 'm, 'q, 'w) turn \<Rightarrow> ('a, 'm, 'q, 'w) turn" where
  "turns N S e 0 s = s"
| "turns N S e (Suc n) s = turns N S e n (Option.bind s (\<lambda>(j, w). purge_turn N S e j w))"

definition ends ::
  "('a, 'm, 'q) ngx \<Rightarrow> 'w os \<Rightarrow> endian \<Rightarrow> job \<Rightarrow> ('a, 'm, 'q, 'w) world \<Rightarrow> ('a, 'm, 'q, 'w) turn \<Rightarrow> bool" where
  "ends N S e j w x \<longleftrightarrow> (\<exists>n. turns N S e n (Some (j, w)) = x)"

lemma ends_here: "ends N S e j w (Some (j, w))"
  unfolding ends_def by (rule exI [of _ 0]) simp

lemma ends_turn: "purge_turn N S e j w = x \<Longrightarrow> ends N S e j w x"
  unfolding ends_def by (rule exI [of _ "Suc 0"]) simp

lemma ends_step:
  assumes "purge_turn N S e j w = Some (j', w')" "ends N S e j' w' x"
  shows "ends N S e j w x"
proof -
  obtain n where "turns N S e n (Some (j', w')) = x" using assms(2) by (auto simp: ends_def)
  then have "turns N S e (Suc n) (Some (j, w)) = x" using assms(1) by simp
  then show ?thesis unfolding ends_def by blast
qed

lemma put_site_same:
  "w_caches w i = Some fc \<Longrightarrow> put_site i fc \<lparr>s_zone = w_zone w, s_tree = fc_tree fc, s_os = w_os w\<rparr> w = w"
  by (simp add: put_site_def fun_upd_idem)

lemma ends_keys:
  "w_caches w (cx_cache c) = Some fc \<Longrightarrow>
   ends N S e (Clearing c keys pr ks n) w
     (case purge_keys_loop S e (fc_path fc) ks (n, fc_tree fc, w_os w) of
        None \<Rightarrow> None
      | Some (n', tree, w1) \<Rightarrow>
          index_answer N c keys pr n'
            (put_site (cx_cache c) fc \<lparr>s_zone = w_zone w, s_tree = tree, s_os = w1\<rparr> w))"
proof (induction ks arbitrary: n fc w)
  case Nil
  then show ?case by (intro ends_turn) (simp add: clear_turn_def put_site_same)
next
  case (Cons k ks)
  let ?i = "cx_cache c"
  show ?case
  proof (cases "invalidate e (fc_tree fc) k")
    case None
    then show ?thesis using Cons.prems by (intro ends_turn) (simp add: clear_turn_def cleared_node_def)
  next
    case (Some y)
    obtain b tree where inv: "invalidate e (fc_tree fc) k = Some (b, tree)" using Some by (cases y) simp
    let ?fc = "fc\<lparr>fc_tree := tree\<rparr>" and ?w = "w\<lparr>w_caches := (w_caches w)(?i \<mapsto> fc\<lparr>fc_tree := tree\<rparr>)\<rparr>"
    have 1: "purge_turn N S e (Clearing c keys pr (k # ks) n) w = Some (Unlinking c keys pr k b ks n, ?w)"
      using Cons.prems inv by (simp add: clear_turn_def cleared_node_def)
    show ?thesis
    proof (cases "delete_file S (fc_path fc) k (w_os w)")
      case None
      then have "ends N S e (Unlinking c keys pr k b ks n) ?w None"
        by (intro ends_turn) (simp add: unlink_turn_def)
      then show ?thesis using 1 inv None by (auto intro: ends_step)
    next
      case (Some z)
      obtain u w1 where del: "delete_file S (fc_path fc) k (w_os w) = Some (u, w1)"
        using Some by (cases z) simp
      let ?n = "if b \<or> u then n + 1 else n"
      have 2: "purge_turn N S e (Unlinking c keys pr k b ks n) ?w
          = Some (Clearing c keys pr ks ?n, ?w\<lparr>w_os := w1\<rparr>)"
        using del by (simp add: unlink_turn_def)
      have put: "put_site ?i ?fc st (?w\<lparr>w_os := w1\<rparr>) = put_site ?i fc st w" for st
        by (simp add: put_site_def)
      show ?thesis
        using Cons.IH [of "?w\<lparr>w_os := w1\<rparr>" ?fc ?n] inv del put
        by (intro ends_step [OF 1] ends_step [OF 2]) (simp cong: option.case_cong)
    qed
  qed
qed

lemma ends_file:
  assumes "cx_cache c = i"
  shows "(\<exists>s' st'. on_file N S e name (s, st) = Some (s', st') \<and>
      (\<forall>x. ends N S e (Walking c s' names rc) (put_site i fc st' w) x \<longrightarrow>
        ends N S e (Walking c s (name # names) rc) (put_site i fc st w) x))
    \<or> on_file N S e name (s, st) = None
      \<and> ends N S e (Walking c s (name # names) rc) (put_site i fc st w) None"
  (is "?ok \<or> ?fault")
proof (cases "key_from_path name")
  case None
  then have "purge_turn N S e (Walking c s (name # names) rc) (put_site i fc st w)
      = Some (Walking c (s\<lparr>sc_scanned := sc_scanned s + 1\<rparr>) names rc, put_site i fc st w)"
    by (simp add: read_turn_def)
  then have ?ok using None by (auto simp: on_file_def intro: ends_step)
  then show ?thesis ..
next
  case (Some key)
  obtain r buf w1 where rd: "read_header_block S (c_string name) (sc_buf s) (s_os st) = ((r, buf), w1)"
    by (metis surj_pair)
  let ?s = "s\<lparr>sc_scanned := sc_scanned s + 1, sc_buf := buf\<rparr>" and ?st = "st\<lparr>s_os := w1\<rparr>"
  let ?v = "Option.bind r (\<lambda>n. find_header (take n buf) (sc_header s))"
  have w1: "(put_site i fc st w)\<lparr>w_os := w1\<rparr> = put_site i fc ?st w" by (simp add: put_site_def)
  note ev = read_turn_def Some rd put_site_simps w1 Let_def
  consider "?v = None \<or> (\<exists>v. ?v = Some v \<and> sc_tag s \<notin> set (split_tags v) \<and> \<not> sc_index s)"
    | v where "?v = Some v" "sc_tag s \<in> set (split_tags v)"
    | v where "?v = Some v" "sc_tag s \<notin> set (split_tags v)" "sc_index s"
    by (cases ?v) auto
  then show ?thesis
  proof cases
    case 1
    then have "purge_turn N S e (Walking c s (name # names) rc) (put_site i fc st w)
        = Some (Walking c ?s names rc, put_site i fc ?st w)"
      "on_file N S e name (s, st) = Some (?s, ?st)"
      by (auto simp: ev on_file_def list_ex_iff split: option.split bind_splits)
    then have ?ok by (auto intro: ends_step)
    then show ?thesis ..
  next
    case (2 v)
    then obtain n where n: "r = Some n" "find_header (take n buf) (sc_header s) = Some v"
      by (auto split: bind_splits)
    have hit: "list_ex (\<lambda>t. t = sc_tag s) (split_tags v)" using 2(2) by (auto simp: list_ex_iff)
    have 1: "purge_turn N S e (Walking c s (name # names) rc) (put_site i fc st w)
        = Some (Invalidating c ?s (c_string name) key names rc, put_site i fc ?st w)"
      using n hit by (simp add: ev)
    show ?thesis
    proof (cases "invalidate e (s_tree st) key")
      case None
      then have "ends N S e (Invalidating c ?s (c_string name) key names rc) (put_site i fc ?st w) None"
        by (intro ends_turn) (simp add: cleared_node_def put_site_simps assms)
      then show ?thesis using None n hit ends_step [OF 1] by (simp add: on_file_def Some rd)
    next
      case inv: (Some y)
      obtain b tree where y: "y = (b, tree)" by fastforce
      obtain urc w2 where un: "os_unlink S (c_string name) w1 = (urc, w2)" by fastforce
      let ?s' = "if b \<or> urc = 0 then ?s\<lparr>sc_purged := sc_purged s + 1\<rparr> else ?s"
      let ?st' = "\<lparr>s_zone = s_zone st, s_tree = tree, s_os = w2\<rparr>"
      have 2: "purge_turn N S e (Invalidating c ?s (c_string name) key names rc) (put_site i fc ?st w)
          = Some (Removing c ?s (c_string name) b names rc, put_site i fc (?st\<lparr>s_tree := tree\<rparr>) w)"
        using inv y by (simp add: cleared_node_def assms put_site_def)
      have 3: "purge_turn N S e (Removing c ?s (c_string name) b names rc)
            (put_site i fc (?st\<lparr>s_tree := tree\<rparr>) w) = Some (Walking c ?s' names rc, put_site i fc ?st' w)"
        using un by (simp add: remove_turn_def put_site_def)
      have "on_file N S e name (s, st) = Some (?s', ?st')"
        using n hit inv y un by (simp add: on_file_def Some rd)
      then have ?ok using ends_step [OF 1] ends_step [OF 2] ends_step [OF 3] by blast
      then show ?thesis ..
    qed
  next
    case (3 v)
    then obtain n where n: "r = Some n" "find_header (take n buf) (sc_header s) = Some v"
      by (auto split: bind_splits)
    have hit: "\<not> list_ex (\<lambda>t. t = sc_tag s) (split_tags v)" using 3(2) by (auto simp: list_ex_iff)
    have 1: "purge_turn N S e (Walking c s (name # names) rc) (put_site i fc st w)
        = Some (Indexing c ?s key (split_tags v) names rc, put_site i fc ?st w)"
      using n hit 3(3) by (simp add: ev)
    show ?thesis
    proof (cases "insert_each (zone_insert N) key (split_tags v) (s_zone st)")
      case None
      then have "ends N S e (Indexing c ?s key (split_tags v) names rc) (put_site i fc ?st w) None"
        by (intro ends_turn) (simp add: index_turn_def)
      then show ?thesis using None n hit 3(3) ends_step [OF 1] by (simp add: on_file_def Some rd)
    next
      case ins: (Some y)
      obtain wrote z where y: "y = (wrote, z)" by fastforce
      let ?s' = "if wrote then ?s\<lparr>sc_indexed := sc_indexed s + 1\<rparr> else ?s"
      have 2: "purge_turn N S e (Indexing c ?s key (split_tags v) names rc) (put_site i fc ?st w)
          = Some (Walking c ?s' names rc, put_site i fc (?st\<lparr>s_zone := z\<rparr>) w)"
        using ins y by (simp add: index_turn_def put_site_def)
      have "on_file N S e name (s, st) = Some (?s', ?st\<lparr>s_zone := z\<rparr>)"
        using n hit ins y 3(3) by (simp add: on_file_def Some rd)
      then have ?ok using ends_step [OF 1] ends_step [OF 2] by blast
      then show ?thesis ..
    qed
  qed
qed

lemma on_file_index: "on_file N S e name (s, st) = Some (s', st') \<Longrightarrow> sc_index s' = sc_index s"
  by (auto simp: on_file_def Let_def split: option.splits prod.splits if_splits)

lemma walk_files_index:
  "walk_files N S e names (s, st) = Some (s', st') \<Longrightarrow> sc_index s' = sc_index s"
  by (induction names arbitrary: s st) (auto split: option.splits dest: on_file_index)

lemma ends_walk:
  "cx_cache c = i \<Longrightarrow>
   ends N S e (Walking c s names rc) (put_site i fc st w)
     (case walk_files N S e names (s, st) of
        None \<Rightarrow> None
      | Some (s', st') \<Rightarrow> scan_end c s' rc (put_site i fc st' w))"
proof (induction names arbitrary: s st)
  case (Cons name names)
  then show ?case using ends_file [OF Cons.prems, of N S e name s st names rc fc w] by fastforce
qed (simp add: ends_turn)

definition answer_turn :: "('a, 'm, 'q, 'w) answer \<Rightarrow> ('a, 'm, 'q, 'w) turn" where
  "answer_turn x = map_option (\<lambda>((rc, r), w). (Answered rc r, w)) x"

lemma answer_turn_simps [simp]:
  "answer_turn None = None"
  "answer_turn (Some ((rc, r), w)) = Some (Answered rc r, w)"
  by (simp_all add: answer_turn_def)

lemma ends_fall_back:
  assumes fc: "w_caches w (cx_cache c) = Some fc"
  shows "ends N S e (Falling c) w
    (answer_turn (fall_back N S e (cx_conf c) (cx_cache c, fc) (cx_tag c) (cx_req c) w))"
proof (cases "\<exists>xmcf xlcf buf w1 p. main_conf (cx_conf c) = Some xmcf \<and> location_conf (cx_conf c) = Some xlcf
    \<and> fallback xlcf \<noteq> 0 \<and> pool_alloc S MAX_HEADER_BLOCK (w_os w) = (Some buf, w1) \<and> fc_path fc = Some p")
  case True
  then obtain xmcf xlcf buf w1 p where cf: "main_conf (cx_conf c) = Some xmcf"
    "location_conf (cx_conf c) = Some xlcf" "fallback xlcf \<noteq> 0"
    "pool_alloc S MAX_HEADER_BLOCK (w_os w) = (Some buf, w1)" "fc_path fc = Some p"
    by blast
  obtain found z where ix: "index_for N (cx_conf c) (w_zone w) = (found, z)" by fastforce
  obtain names rc where walk: "os_walk S (p_name p) w1 = (names, rc)" by fastforce
  let ?s = "\<lparr>sc_tag = cx_tag c, sc_header = header xmcf, sc_buf = buf, sc_index = (found \<and> z_slab z \<noteq> None),
      sc_scanned = 0, sc_purged = 0, sc_indexed = 0\<rparr>"
  let ?st = "\<lparr>s_zone = z, s_tree = fc_tree fc, s_os = w1\<rparr>"
  have put: "w\<lparr>w_zone := z, w_os := w1\<rparr> = put_site (cx_cache c) fc ?st w"
    using fc by (simp add: put_site_def fun_upd_idem)
  have 1: "purge_turn N S e (Falling c) w
      = Some (Walking c ?s names rc, put_site (cx_cache c) fc ?st w)"
    using cf ix walk fc by (simp add: fall_turn_def Let_def put)
  have idx: "sc_index s' = sc_index ?s" if "walk_files N S e names (?s, ?st) = Some (s', st')" for s' st'
    using walk_files_index [OF that] by simp
  have "answer_turn (fall_back N S e (cx_conf c) (cx_cache c, fc) (cx_tag c) (cx_req c) w) =
      (case walk_files N S e names (?s, ?st) of
        None \<Rightarrow> None
      | Some (s', st') \<Rightarrow> scan_end c s' rc (put_site (cx_cache c) fc st' w))"
    using cf ix walk idx
    by (auto simp: fall_back_def run_def scan_end_def report_eq no_content_eq Let_def split: option.split)
  then show ?thesis using ends_step [OF 1 ends_walk] by simp
next
  case False
  let ?same = "purge_turn N S e (Falling c) w =
      answer_turn (fall_back N S e (cx_conf c) (cx_cache c, fc) (cx_tag c) (cx_req c) w)"
  consider "main_conf (cx_conf c) = None \<or> location_conf (cx_conf c) = None"
    | xmcf xlcf where "main_conf (cx_conf c) = Some xmcf" "location_conf (cx_conf c) = Some xlcf"
    by (cases "main_conf (cx_conf c)"; cases "location_conf (cx_conf c)") auto
  then have ?same
  proof cases
    case 1
    then show ?thesis by (auto simp: fall_turn_def fall_back_def split: option.split)
  next
    case (2 xmcf xlcf)
    obtain m w1 where al: "pool_alloc S MAX_HEADER_BLOCK (w_os w) = (m, w1)" by fastforce
    obtain found z where ix: "index_for N (cx_conf c) (w_zone w) = (found, z)" by fastforce
    consider "fallback xlcf = 0" | "m = None" | buf where "m = Some buf" "fc_path fc = None"
      using False 2 al by (cases m; cases "fc_path fc") auto
    then show ?thesis
      using 2 al ix fc
      by cases (simp_all add: fall_turn_def fall_back_def run_def Let_def put_site_def fun_upd_idem)
  qed
  then show ?thesis by (rule ends_turn)
qed

text \<open>From the lock on: what the handler does once it has its cache and its index.\<close>

definition purge_taking ::
  "('a, 'm, 'q) ngx \<Rightarrow> 'w os \<Rightarrow> endian \<Rightarrow> purge_ctx \<Rightarrow> file_cache \<Rightarrow> ('a, 'm, 'q, 'w) world \<Rightarrow>
   ('a, 'm, 'q, 'w) answer" where
  "purge_taking N S e c fc w =
     (case zone_take N (cx_tag c) (w_zone w) of
        None \<Rightarrow> None
      | Some (None, z) \<Rightarrow> fall_back N S e (cx_conf c) (cx_cache c, fc) (cx_tag c) (cx_req c) (w\<lparr>w_zone := z\<rparr>)
      | Some (Some keys, z) \<Rightarrow>
          (case purge_keys_loop S e (fc_path fc) (items keys) (0, fc_tree fc, w_os w) of
             None \<Rightarrow> None
           | Some (purged, tree, w1) \<Rightarrow>
          (case report (bytes_of ''index'') purged None (zone_pressure z) (cx_req c) of
             None \<Rightarrow> None
           | Some r2 \<Rightarrow>
               Some (no_content r2,
                 put_site (cx_cache c) fc
                   \<lparr>s_zone = z\<lparr>z_slab := map_option (vec_drop N keys) (z_slab z)\<rparr>,
                    s_tree = tree, s_os = w1\<rparr> w))))"

lemma purge_handler_taking:
  "purge_handler N S e conf r w =
     (case arrive_turn N conf r w of
        None \<Rightarrow> None
      | Some (j, w') \<Rightarrow>
          (case j of
             Taking c \<Rightarrow> purge_taking N S e c (the (w_caches w (cx_cache c))) w'
           | Answered rc r' \<Rightarrow> Some ((rc, r'), w')
           | _ \<Rightarrow> None))"
  by (auto simp: purge_handler_def arrive_turn_def purge_taking_def put_site_def file_cache_def Let_def
      cong: if_cong split: option.split prod.split bool.split)

lemma ends_taking:
  assumes fc: "w_caches w (cx_cache c) = Some fc"
  shows "ends N S e (Taking c) w (answer_turn (purge_taking N S e c fc w))"
proof (cases "zone_take N (cx_tag c) (w_zone w)")
  case None
  then show ?thesis by (intro ends_turn) (simp add: take_turn_def purge_taking_def)
next
  case (Some y)
  obtain v z where tk: "zone_take N (cx_tag c) (w_zone w) = Some (v, z)" using Some by (cases y) simp
  let ?w = "w\<lparr>w_zone := z\<rparr>"
  have fc': "w_caches ?w (cx_cache c) = Some fc" using fc by simp
  show ?thesis
  proof (cases v)
    case None
    then have "purge_turn N S e (Taking c) w = Some (Falling c, ?w)" using tk by (simp add: take_turn_def)
    then show ?thesis
      using ends_fall_back [OF fc'] tk None by (auto simp: purge_taking_def intro: ends_step)
  next
    case v: (Some keys)
    then have 1: "purge_turn N S e (Taking c) w = Some (Clearing c keys (zone_pressure z) (items keys) 0, ?w)"
      using tk by (simp add: take_turn_def)
    have "answer_turn (purge_taking N S e c fc w) =
        (case purge_keys_loop S e (fc_path fc) (items keys) (0, fc_tree fc, w_os ?w) of
           None \<Rightarrow> None
         | Some (n', tree, w1) \<Rightarrow>
             index_answer N c keys (zone_pressure z) n'
               (put_site (cx_cache c) fc \<lparr>s_zone = w_zone ?w, s_tree = tree, s_os = w1\<rparr> ?w))"
      using tk v
      by (simp add: purge_taking_def report_eq index_answer_def put_site_def Let_def split: option.split prod.split)
    then show ?thesis using ends_step [OF 1 ends_keys [OF fc']] by simp
  qed
qed

text \<open>The sections of a purge, run one after the other, are the handler.\<close>

lemma alone_purge_handler:
  "ends N S e (Arrived conf r) w (answer_turn (purge_handler N S e conf r w))"
proof (cases "\<exists>c w'. arrive_turn N conf r w = Some (Taking c, w')")
  case True
  then obtain c w' where at: "arrive_turn N conf r w = Some (Taking c, w')" by blast
  then have cs: "w_caches w' = w_caches w" "w_caches w (cx_cache c) \<noteq> None"
    by (auto simp: arrive_turn_def file_cache_def Let_def split: if_splits option.splits prod.splits bool.splits)
  then obtain fc where fc: "w_caches w' (cx_cache c) = Some fc" by auto
  have "purge_handler N S e conf r w = purge_taking N S e c fc w'"
    using at fc cs by (simp add: purge_handler_taking)
  then show ?thesis using ends_step [of N S e "Arrived conf r" w, OF _ ends_taking [OF fc]] at by simp
next
  case False
  then obtain rc r' w' where "arrive_turn N conf r w = Some (Answered rc r', w')"
    by (auto simp: arrive_turn_def Let_def split: if_splits option.splits prod.splits bool.splits)
  then show ?thesis by (intro ends_turn) (simp add: purge_handler_taking)
qed

end
