(* ===== verification/Worker_Safety.thy ===== *)
theory Worker_Safety
  imports Worker_System
begin

text \<open>
  Every turn of a job keeps the invariant of the world and of the job, section by section; so
  does every other step of the system. On every path, then, no turn faults, and what a purge
  removes is a file whose key there is evidence for: a response recorded with the purged tag, or
  a cache file that carried it (\<open>tag_evidence\<close>).
\<close>

section \<open>A turn\<close>

text \<open>A turn leads to a known job in a sound world, and removes files of known keys at most.\<close>

definition turn_to ::
  "('a, 'm, 'q) ngx \<Rightarrow> ('q \<Rightarrow> addr list \<Rightarrow> bool) \<Rightarrow> ('m \<Rightarrow> bool) \<Rightarrow> ('w \<Rightarrow> bytes \<Rightarrow> bytes option) \<Rightarrow>
   (conf \<Rightarrow> request \<Rightarrow> bool) \<Rightarrow> main_conf option \<Rightarrow> (bytes \<times> cache_key) set \<Rightarrow>
   job \<Rightarrow> ('a, 'm, 'q, 'w) world \<Rightarrow> job \<Rightarrow> ('a, 'm, 'q, 'w) world \<Rightarrow> bool" where
  "turn_to N ring map_ok files A xm E j w j' w' \<longleftrightarrow>
     (\<exists>L'. world_in N ring map_ok E w' L') \<and> kept w w' \<and> job_ok A xm E w' j'
     \<and> (\<forall>x. files (w_os w') x = files (w_os w) x
          \<or> files (w_os w') x = None
            \<and> (\<exists>c k. job_ctx j = Some c \<and> key_from_path x = Some k \<and> (cx_tag c, k) \<in> E))"

lemma kept_zone: "z_data (w_zone w) \<noteq> None \<longrightarrow> z_data z \<noteq> None \<Longrightarrow> kept w (w\<lparr>w_zone := z\<rparr>)"
  by (simp add: kept_def)

lemma kept_os [simp]: "kept w (w\<lparr>w_os := w1\<rparr>)"
  by (simp add: kept_def)

lemma kept_tree [simp]:
  "w_caches w i = Some fc \<Longrightarrow> kept w (w\<lparr>w_caches := (w_caches w)(i \<mapsto> fc\<lparr>fc_tree := tree\<rparr>)\<rparr>)"
  by (simp add: kept_def)

lemma turn_to_end:
  "world_in N ring map_ok E w' L \<Longrightarrow> kept w w' \<Longrightarrow> files (w_os w') = files (w_os w) \<Longrightarrow>
   turn_to N ring map_ok files A xm E j w (Answered rc r) w'"
  by (auto simp: turn_to_def)

text \<open>The outcomes of the checks.\<close>

lemma arrive_turn_cases:
  assumes ix: "index_for N conf (w_zone w) = (found, z)"
  obtains (refused) rc r' where "arrive_turn N conf r w = Some (Answered rc r', w)"
  | (no_index) rc r' where "arrive_turn N conf r w = Some (Answered rc r', w\<lparr>w_zone := z\<rparr>)"
  | (go) tag i fc where "arrive_turn N conf r w = Some (Taking \<lparr>cx_conf = conf,
        cx_req = log_calls [DiscardRequestBody] r, cx_tag = tag, cx_cache = i\<rparr>, w\<lparr>w_zone := z\<rparr>)"
      "purge_request r tag" "w_caches w i = Some fc" found
proof -
  let ?tag = "Option.bind (purge_tag r) (\<lambda>tag. if length tag \<le> MAX_TAG_LEN then Some tag else None)"
  note ev = arrive_turn_def discard_request_body_def ix
  consider "\<not> is_purge r \<or> r_discard_rc r \<noteq> NGX_OK \<or> ?tag = None \<or> location_conf conf = None"
    | tag xlcf where "is_purge r" "r_discard_rc r = NGX_OK" "?tag = Some tag" "location_conf conf = Some xlcf"
    by (cases ?tag; cases "location_conf conf") auto
  then show thesis
  proof cases
    case 1
    then have "\<exists>rc r'. arrive_turn N conf r w = Some (Answered rc r', w)"
      by (auto simp: ev split: option.split)
    then show thesis using refused by blast
  next
    case (2 tag xlcf)
    show thesis
    proof (cases "file_cache (cache_zone xlcf) w")
      case None
      then show thesis using 2 by (intro refused [of NGX_ERROR "log_calls [DiscardRequestBody] r"]) (simp add: ev)
    next
      case (Some y)
      obtain i fc where y: "y = (i, fc)" by fastforce
      have fc: "w_caches w i = Some fc" using Some y by (auto simp: file_cache_def split: option.splits)
      have req: "purge_request r tag" using 2 by (auto simp: purge_request_def split: bind_splits if_splits)
      show thesis
      proof (cases found)
        case True
        then show thesis using 2 Some y by (intro go [OF _ req fc]) (simp_all add: ev)
      next
        case False
        then show thesis
          using 2 Some y by (intro no_index [of NGX_ERROR "log_calls [DiscardRequestBody] r"]) (simp add: ev)
      qed
    qed
  qed
qed

lemma scan_end_answers: "\<exists>rc' r'. scan_end c s rc w = Some (Answered rc' r', w)"
  by (cases "rc = NGX_ERROR"; cases "sc_purged s = 0")
    (simp_all add: scan_end_def report_eq no_content_eq Let_def)

context ngx_env
begin

lemma placed_rel:
  "zone_state N ring map_ok z L \<Longrightarrow> z_data z \<noteq> None \<Longrightarrow> zone_rel N ring map_ok z L"
  by (auto simp: zone_state_def)

lemma shared_placed: "shared N z = (x, z') \<Longrightarrow> z_data z \<noteq> None \<Longrightarrow> z_data z' \<noteq> None"
  by (auto simp: shared_def split: option.splits)

lemma index_for_placed:
  "index_for N conf z = (found, z') \<Longrightarrow> z_data z \<noteq> None \<Longrightarrow> z_data z' \<noteq> None"
  by (auto simp: index_for_def split: option.splits if_splits prod.splits sum.splits dest: shared_placed)

text \<open>Clearing a node, wherever the purge stands.\<close>

lemma cleared_node_ok:
  assumes "world_in N ring map_ok E w L" "w_caches w i \<noteq> None" "key_ok key"
  shows "\<exists>b w'. cleared_node e i key w = Some (b, w') \<and> world_in N ring map_ok E w' L
    \<and> kept w w' \<and> w_os w' = w_os w"
proof -
  obtain fc where fc: "w_caches w i = Some fc" using assms(2) by auto
  have cs: "caches_ok (w_caches w)" using assms(1) by (simp add: world_in_def)
  then obtain t where "cache_ok (fc_tree fc) t" using fc unfolding caches_ok_def by blast
  then obtain b tree where "invalidate e (fc_tree fc) key = Some (b, tree)" "cache_ok tree t"
    using invalidate_ok [OF _ assms(3)] by blast
  then show ?thesis
    using fc assms(1) caches_ok_put [OF cs fc] by (simp add: cleared_node_def world_in_def)
qed

end

context site_env
begin

abbreviation turn_safe ::
  "endian \<Rightarrow> (conf \<Rightarrow> request \<Rightarrow> bool) \<Rightarrow> main_conf option \<Rightarrow> (bytes \<times> cache_key) set \<Rightarrow>
   job \<Rightarrow> ('a, 'm, 'q, 'w) world \<Rightarrow> bool" where
  "turn_safe e A xm E j w \<equiv>
     \<exists>j' w'. purge_turn N S e j w = Some (j', w') \<and> turn_to N ring map_ok files A xm E j w j' w'"

lemma arrive_safe:
  assumes w: "world_in N ring map_ok E w L" and job: "A conf r"
  shows "turn_safe e A xm E (Arrived conf r) w"
proof -
  obtain found z where ix: "index_for N conf (w_zone w) = (found, z)" by fastforce
  have z: "zone_state N ring map_ok (w_zone w) L" using w by (simp add: world_in_def)
  note st = index_for_state [OF z ix]
  have w': "world_in N ring map_ok E (w\<lparr>w_zone := z\<rparr>) L" using w st(1) by (simp add: world_in_def)
  have k: "kept w (w\<lparr>w_zone := z\<rparr>)" using index_for_placed [OF ix] by (simp add: kept_def)
  show ?thesis
  proof (rule arrive_turn_cases [OF ix, of r], goal_cases)
    case (1 rc r')
    then show ?case using turn_to_end [OF w] by simp
  next
    case (2 rc r')
    then show ?case using turn_to_end [OF w' k] by simp
  next
    case (3 tag i fc)
    have "z_data z \<noteq> None" using st(2) \<open>found\<close> by (auto simp: zone_rel_def)
    then show ?case using 3 w' k job by (auto simp: turn_to_def ctx_ok_def)
  qed
qed

lemma take_safe:
  assumes w: "world_in N ring map_ok E w L" and job: "ctx_ok A w c"
  shows "turn_safe e A xm E (Taking c) w"
proof -
  have rel: "zone_rel N ring map_ok (w_zone w) L"
    using w job placed_rel by (simp add: world_in_def ctx_ok_def)
  obtain v z where tk: "zone_take N (cx_tag c) (w_zone w) = Some (v, z)"
    "map_option items v = map_of L (cx_tag c)" "zone_rel N ring map_ok z (lru_remove (cx_tag c) L)"
    using zone_take_rel [OF rel] by blast
  have w': "world_in N ring map_ok E (w\<lparr>w_zone := z\<rparr>) (lru_remove (cx_tag c) L)"
    using w tk(3) by (auto simp: world_in_def zone_state_def lru_pairs_remove)
  have k: "kept w (w\<lparr>w_zone := z\<rparr>)" using tk(3) by (auto simp: kept_def zone_rel_def)
  have c: "ctx_ok A (w\<lparr>w_zone := z\<rparr>) c" using ctx_ok_mono [OF job k] by simp
  have "{cx_tag c} \<times> set (items keys) \<subseteq> E" if "v = Some keys" for keys
    using tk(2) that w by (auto simp: world_in_def lru_pairs_def dest: sym)
  then show ?thesis
    using tk(1) w' k c by (cases v) (auto simp: take_turn_def turn_to_def)
qed

lemma clear_safe:
  assumes w: "world_in N ring map_ok E w L" and job: "job_ok A xm E w (Clearing c keys pr ks n)"
    and E: "\<forall>(t, k)\<in>E. key_ok k"
  shows "turn_safe e A xm E (Clearing c keys pr ks n) w"
proof (cases ks)
  case Nil
  let ?z = "(w_zone w)\<lparr>z_slab := map_option (vec_drop N keys) (z_slab (w_zone w))\<rparr>"
  have "zone_rel N ring map_ok ?z L"
    using w job zone_rel_slab [OF placed_rel] by (simp add: world_in_def ctx_ok_def)
  then have "world_in N ring map_ok E (w\<lparr>w_zone := ?z\<rparr>) L"
    using w by (simp add: world_in_def zone_state_def)
  then show ?thesis
    using Nil turn_to_end [of N ring map_ok E "w\<lparr>w_zone := ?z\<rparr>" L w files] kept_zone [of w ?z]
    by (simp add: clear_turn_def index_answer_def report_eq no_content_eq Let_def)
next
  case (Cons k ks')
  have c: "ctx_ok A w c" using job by simp
  have "key_ok k" using job E Cons by auto
  then obtain b w' where cn: "cleared_node e (cx_cache c) k w = Some (b, w')"
    "world_in N ring map_ok E w' L" "kept w w'" "w_os w' = w_os w"
    using cleared_node_ok [OF w, of "cx_cache c" k e] c by (auto simp: ctx_ok_def)
  then show ?thesis
    using Cons job ctx_ok_mono [OF c cn(3), of A] by (auto simp: clear_turn_def turn_to_def)
qed

lemma unlink_safe:
  assumes w: "world_in N ring map_ok E w L" and job: "job_ok A xm E w (Unlinking c keys pr key b ks n)"
    and E: "\<forall>(t, k)\<in>E. key_ok k"
  shows "turn_safe e A xm E (Unlinking c keys pr key b ks n) w"
proof -
  have c: "ctx_ok A w c" using job by simp
  obtain fc where fc: "w_caches w (cx_cache c) = Some fc" using c by (auto simp: ctx_ok_def)
  have key: "key_ok key" using job E by auto
  obtain u w1 where del: "delete_file S (fc_path fc) key (w_os w) = Some (u, w1)"
    "\<forall>x. files w1 x = files (w_os w) x \<or> files w1 x = None \<and> key_from_path x = Some key"
  proof (cases "fc_path fc")
    case None
    then show thesis using that [of False "w_os w"] by (simp add: delete_file_def)
  next
    case (Some p)
    then have "0 \<notin> set (p_name p)" using w fc by (auto simp: world_in_def caches_ok_def)
    then show thesis
      using delete_file_ok [OF key, of p "w_os w"] that key_from_cache_file [OF key] Some
      by (metis fun_upd_apply)
  qed
  have "world_in N ring map_ok E (w\<lparr>w_os := w1\<rparr>) L" using w by (simp add: world_in_def)
  then show ?thesis
    using fc del job ctx_ok_mono [OF c kept_os, of A w1] by (auto simp: unlink_turn_def turn_to_def)
qed

lemma fall_safe:
  assumes w: "world_in N ring map_ok E w L" and job: "ctx_ok A w c"
    and A: "\<And>conf r. A conf r \<Longrightarrow> main_conf conf = xm"
  shows "turn_safe e A xm E (Falling c) w"
proof -
  obtain fc where fc: "w_caches w (cx_cache c) = Some fc" using job by (auto simp: ctx_ok_def)
  obtain m w1 where al: "pool_alloc S MAX_HEADER_BLOCK (w_os w) = (m, w1)" by fastforce
  have f1: "files w1 = files (w_os w)" by (rule alloc_files [OF al])
  obtain found z where ix: "index_for N (cx_conf c) (w_zone w) = (found, z)" by fastforce
  have w1: "world_in N ring map_ok E (w\<lparr>w_os := w1\<rparr>) L" using w by (simp add: world_in_def)
  let ?w = "w\<lparr>w_zone := z, w_os := w1\<rparr>"
  have w2: "world_in N ring map_ok E ?w L"
    using w index_for_state(1) [OF _ ix] by (simp add: world_in_def)
  have k: "kept w ?w" using index_for_placed [OF ix] by (simp add: kept_def)
  have c: "ctx_ok A ?w c" using ctx_ok_mono [OF job k] by simp
  consider rc where "purge_turn N S e (Falling c) w = Some (Answered rc (cx_req c), w)"
    | rc where "purge_turn N S e (Falling c) w = Some (Answered rc (cx_req c), w\<lparr>w_os := w1\<rparr>)"
    | rc where "purge_turn N S e (Falling c) w = Some (Answered rc (cx_req c), ?w)"
    | s and p :: cpath and names rc where "purge_turn N S e (Falling c) w = Some (Walking c s names rc, ?w)"
        "scan_ok xm c s" "os_walk S (p_name p) w1 = (names, rc)"
  proof (cases "main_conf (cx_conf c)")
    case None
    then show thesis using that(1) by (simp add: fall_turn_def)
  next
    case m: (Some xmcf)
    show thesis
    proof (cases "location_conf (cx_conf c)")
      case None
      then show thesis using that(1) m by (simp add: fall_turn_def)
    next
      case l: (Some xlcf)
      consider "fallback xlcf = 0" | "fallback xlcf \<noteq> 0" "m = None"
        | buf where "fallback xlcf \<noteq> 0" "m = Some buf" "fc_path fc = None"
        | buf p where "fallback xlcf \<noteq> 0" "m = Some buf" "fc_path fc = Some p" by blast
      then show thesis
      proof cases
        case 1
        then show thesis using that(1) m l by (simp add: fall_turn_def)
      next
        case 2
        then show thesis using that(2) m l al by (simp add: fall_turn_def)
      next
        case 3
        then show thesis using that(3) m l al ix fc by (simp add: fall_turn_def Let_def)
      next
        case 4
        obtain names rc where walk: "os_walk S (p_name p) w1 = (names, rc)" by fastforce
        have "length buf = MAX_HEADER_BLOCK" using alloc_length al 4(2) by simp
        moreover have "tag_header xm = header xmcf" using job A m by (auto simp: ctx_ok_def tag_header_def)
        ultimately have ok: "scan_ok xm c \<lparr>sc_tag = cx_tag c, sc_header = header xmcf, sc_buf = buf,
            sc_index = (found \<and> z_slab z \<noteq> None), sc_scanned = 0, sc_purged = 0, sc_indexed = 0\<rparr>"
          by (simp add: scan_ok_def)
        show thesis
          by (rule that(4) [OF _ ok walk]) (use walk m l al ix fc 4 in \<open>simp add: fall_turn_def Let_def\<close>)
      qed
    qed
  qed
  then show ?thesis
  proof cases
    case 1
    then show ?thesis using turn_to_end [OF w] by simp
  next
    case 2
    then show ?thesis using turn_to_end [OF w1] f1 by simp
  next
    case 3
    then show ?thesis using turn_to_end [OF w2 k] f1 by simp
  next
    case 4
    have "names_ok names" using walk_names [of _ "p_name p" w1] 4(3) by (simp add: names_ok_def)
    then show ?thesis using 4 w2 k c f1 by (auto simp: turn_to_def)
  qed
qed

text \<open>What reading a file finds: nothing, the tag, or other tags.\<close>

lemma read_turn_cases:
  assumes name: "0 \<notin> set name" and sc: "scan_ok xm c s"
  obtains (skip) s' w1 where "read_turn S c s name names rc w = (Walking c s' names rc, w\<lparr>w_os := w1\<rparr>)"
      "scan_ok xm c s'" "files w1 = files (w_os w)"
  | (hit) s' w1 key ts where
      "read_turn S c s name names rc w = (Invalidating c s' name key names rc, w\<lparr>w_os := w1\<rparr>)"
      "scan_ok xm c s'" "files w1 = files (w_os w)" "cx_tag c \<in> set ts"
      "entry_at S MAX_HEADER_BLOCK (tag_header xm) (files (w_os w)) name = Some (key, ts)"
  | (other) s' w1 key ts where
      "read_turn S c s name names rc w = (Indexing c s' key ts names rc, w\<lparr>w_os := w1\<rparr>)"
      "scan_ok xm c s'" "files w1 = files (w_os w)" "cx_tag c \<notin> set ts"
      "entry_at S MAX_HEADER_BLOCK (tag_header xm) (files (w_os w)) name = Some (key, ts)"
proof (cases "key_from_path name")
  case None
  show thesis
    by (rule skip [of "s\<lparr>sc_scanned := sc_scanned s + 1\<rparr>" "w_os w"])
      (use None sc in \<open>simp_all add: read_turn_def scan_ok_def\<close>)
next
  case (Some key)
  obtain m buf w1 where rd: "read_header_block S name (sc_buf s) (w_os w) = ((m, buf), w1)"
    by (metis surj_pair)
  note rs = read_sound [OF rd]
  let ?s = "s\<lparr>sc_scanned := sc_scanned s + 1, sc_buf := buf\<rparr>"
  have sc': "scan_ok xm c ?s" and room: "length (sc_buf s) = MAX_HEADER_BLOCK"
    "sc_tag s = cx_tag c" "sc_header s = tag_header xm"
    using sc rs(2) by (simp_all add: scan_ok_def)
  note ev = read_turn_def Some rd c_string_id [OF name] Let_def room
  show thesis
  proof (cases "Option.bind m (\<lambda>n. find_header (take n buf) (sc_header s))")
    case None
    show thesis
      by (rule skip [OF _ sc' rs(1)]) (use None in \<open>auto simp: ev split: option.split bind_splits\<close>)
  next
    case v: (Some v)
    then obtain n where n: "m = Some n" "find_header (take n buf) (sc_header s) = Some v"
      by (auto split: bind_splits)
    obtain d where "files (w_os w) name = Some d" "stored_block S (length (sc_buf s)) d = Some (take n buf)"
      using rs(3) [OF n(1)] by blast
    then have entry: "entry_at S MAX_HEADER_BLOCK (tag_header xm) (files (w_os w)) name = Some (key, split_tags v)"
      using Some n(2) room by (simp add: entry_at_def)
    show thesis
    proof (cases "cx_tag c \<in> set (split_tags v)")
      case True
      show thesis
        by (rule hit [OF _ sc' rs(1) True entry]) (use n True in \<open>auto simp: ev list_ex_iff\<close>)
    next
      case False
      show thesis
      proof (cases "sc_index s")
        case True
        show thesis
          by (rule other [OF _ sc' rs(1) False entry]) (use n True False in \<open>auto simp: ev list_ex_iff\<close>)
      next
        case idx: False
        show thesis
          by (rule skip [OF _ sc' rs(1)]) (use n idx False in \<open>auto simp: ev list_ex_iff\<close>)
      qed
    qed
  qed
qed

lemma walk_safe:
  assumes w: "world_in N ring map_ok E w L" and job: "job_ok A xm E w (Walking c s names rc)"
    and F: "file_pairs S (tag_header xm) (files (w_os w)) \<subseteq> E"
  shows "turn_safe e A xm E (Walking c s names rc) w"
proof (cases names)
  case Nil
  obtain rc' r' where "scan_end c s rc w = Some (Answered rc' r', w)" using scan_end_answers by blast
  then show ?thesis using Nil turn_to_end [OF w] by simp
next
  case (Cons name ns)
  have sc: "scan_ok xm c s" and name: "0 \<notin> set name" "names_ok ns" and c: "ctx_ok A w c"
    using job Cons by (auto simp: names_ok_def)
  have w1: "world_in N ring map_ok E (w\<lparr>w_os := w1\<rparr>) L" for w1 using w by (simp add: world_in_def)
  note c' = ctx_ok_mono [OF c kept_os order_refl]
  have ev: "set ts \<times> {key} \<subseteq> E \<and> key_from_path name = Some key"
    if "entry_at S MAX_HEADER_BLOCK (tag_header xm) (files (w_os w)) name = Some (key, ts)" for key ts
    using that F entry_at_key [OF that] unfolding file_pairs_def by auto
  show ?thesis
  proof (rule read_turn_cases [OF name(1) sc, of ns rc w], goal_cases)
    case (1 s' w1)
    then show ?case using Cons w1 c' name(2) by (auto simp: turn_to_def)
  next
    case (2 s' w1 key ts)
    then show ?case using Cons w1 c' name ev [OF 2(5)] by (auto simp: turn_to_def names_ok_def)
  next
    case (3 s' w1 key ts)
    then show ?case using Cons w1 c' name(2) ev [OF 3(5)] by (auto simp: turn_to_def)
  qed
qed

lemma invalidate_safe:
  assumes w: "world_in N ring map_ok E w L"
    and job: "job_ok A xm E w (Invalidating c s path key names rc)" and E: "\<forall>(t, k)\<in>E. key_ok k"
  shows "turn_safe e A xm E (Invalidating c s path key names rc) w"
proof -
  have c: "ctx_ok A w c" and "key_ok key" using job E by auto
  then obtain b w' where cn: "cleared_node e (cx_cache c) key w = Some (b, w')"
    "world_in N ring map_ok E w' L" "kept w w'" "w_os w' = w_os w"
    using cleared_node_ok [OF w, of "cx_cache c" key e] by (auto simp: ctx_ok_def)
  then show ?thesis using job ctx_ok_mono [OF c cn(3) order_refl] by (auto simp: turn_to_def)
qed

lemma remove_safe:
  assumes w: "world_in N ring map_ok E w L" and job: "job_ok A xm E w (Removing c s path b names rc)"
  shows "turn_safe e A xm E (Removing c s path b names rc) w"
proof -
  obtain urc w1 where un: "os_unlink S path (w_os w) = (urc, w1)" by fastforce
  have c: "ctx_ok A w c" using job by simp
  obtain key where key: "key_from_path path = Some key" "(cx_tag c, key) \<in> E" using job by auto
  have "files w1 x = files (w_os w) x \<or> files w1 x = None \<and> key_from_path x = Some key" for x
    using unlink_files [OF un] key(1) by (auto split: if_splits)
  moreover have "world_in N ring map_ok E (w\<lparr>w_os := w1\<rparr>) L" using w by (simp add: world_in_def)
  ultimately show ?thesis
    using un job key(2) ctx_ok_mono [OF c kept_os order_refl, of w1]
    by (auto simp: remove_turn_def turn_to_def scan_ok_def names_ok_def Let_def)
qed

lemma index_safe:
  assumes w: "world_in N ring map_ok E w L" and job: "job_ok A xm E w (Indexing c s key tags names rc)"
  shows "turn_safe e A xm E (Indexing c s key tags names rc) w"
proof -
  have c: "ctx_ok A w c" using job by simp
  then have "zone_rel N ring map_ok (w_zone w) L" using w placed_rel by (simp add: world_in_def ctx_ok_def)
  then obtain wrote z L' where ins: "insert_each (zone_insert N) key tags (w_zone w) = Some (wrote, z)"
    "zone_rel N ring map_ok z L'" "lru_pairs L' \<subseteq> lru_pairs L \<union> set tags \<times> {key}"
    by (metis store.insert_each_pairs)
  have w': "world_in N ring map_ok E (w\<lparr>w_zone := z\<rparr>) L'"
    using w ins job by (auto simp: world_in_def zone_state_def)
  have k: "kept w (w\<lparr>w_zone := z\<rparr>)" using ins(2) by (auto simp: kept_def zone_rel_def)
  show ?thesis
    using ins(1) w' k job ctx_ok_mono [OF c k order_refl]
    by (auto simp: index_turn_def turn_to_def scan_ok_def)
qed

lemma turn_safe:
  assumes "world_in N ring map_ok E w L" "job_ok A xm E w j"
    and "\<And>conf r. A conf r \<Longrightarrow> main_conf conf = xm"
    and "file_pairs S (tag_header xm) (files (w_os w)) \<subseteq> E" "\<forall>(t, k)\<in>E. key_ok k"
  shows "turn_safe e A xm E j w"
proof -
  note w = assms(1) and job = assms(2) and A = assms(3) and F = assms(4) and E = assms(5)
  show ?thesis
  proof (cases j)
    case (Arrived conf r)
    then show ?thesis using arrive_safe [OF w] job by simp
  next
    case (Taking c)
    then show ?thesis using take_safe [OF w] job by simp
  next
    case (Clearing c keys pr ks n)
    then show ?thesis using clear_safe [OF w _ E] job by blast
  next
    case (Unlinking c keys pr key b ks n)
    then show ?thesis using unlink_safe [OF w _ E] job by blast
  next
    case (Falling c)
    then show ?thesis using fall_safe [OF w _ A] job by simp
  next
    case (Walking c s names rc)
    then show ?thesis using walk_safe [OF w _ F] job by blast
  next
    case (Invalidating c s path key names rc)
    then show ?thesis using invalidate_safe [OF w _ E] job by blast
  next
    case (Removing c s path b names rc)
    then show ?thesis using remove_safe [OF w] job by blast
  next
    case (Indexing c s key tags names rc)
    then show ?thesis using index_safe [OF w] job by blast
  next
    case (Answered rc r)
    then show ?thesis using turn_to_end [OF w] by simp
  qed
qed

end

section \<open>The system\<close>

text \<open>
  The evidence a path has given: the pairs of the responses recorded, and the pairs the cache
  files held in its states.
\<close>

definition event_pairs :: "event \<Rightarrow> (bytes \<times> cache_key) set" where
  "event_pairs ev = (case ev of Recorded conf r \<Rightarrow> response_pairs conf r | _ \<Rightarrow> {})"

definition evidence ::
  "'w os \<Rightarrow> ('w \<Rightarrow> bytes \<Rightarrow> bytes option) \<Rightarrow> main_conf option \<Rightarrow>
   (event \<times> ('a, 'm, 'q, 'w) system) list \<Rightarrow> (bytes \<times> cache_key) set" where
  "evidence S files xm hs =
     (\<Union>(ev, s)\<in>set hs. event_pairs ev \<union> file_pairs S (tag_header xm) (files (w_os (sy_world s))))"

definition arrived ::
  "(event \<times> ('a, 'm, 'q, 'w) system) list \<Rightarrow> nat \<Rightarrow> conf \<Rightarrow> request \<Rightarrow> bool" where
  "arrived hs i conf r \<longleftrightarrow> (\<exists>s. (Arrive i conf r, s) \<in> set hs)"

definition sys_ok ::
  "('a, 'm, 'q) ngx \<Rightarrow> ('q \<Rightarrow> addr list \<Rightarrow> bool) \<Rightarrow> ('m \<Rightarrow> bool) \<Rightarrow> 'w os \<Rightarrow>
   ('w \<Rightarrow> bytes \<Rightarrow> bytes option) \<Rightarrow> main_conf option \<Rightarrow>
   (event \<times> ('a, 'm, 'q, 'w) system) list \<Rightarrow> ('a, 'm, 'q, 'w) system \<Rightarrow> bool" where
  "sys_ok N ring map_ok S files xm hs s \<longleftrightarrow>
     (\<exists>L. world_in N ring map_ok (evidence S files xm hs) (sy_world s) L)
     \<and> (\<forall>i j. sy_jobs s i = Some j \<longrightarrow>
          job_ok (arrived hs i) xm (evidence S files xm hs) (sy_world s) j)
     \<and> (\<forall>i conf r. arrived hs i conf r \<longrightarrow> main_conf conf = xm)
     \<and> (\<forall>(t, k)\<in>evidence S files xm hs. key_ok k)"

lemma evidence_Cons:
  "evidence S files xm ((ev, s) # hs) =
     event_pairs ev \<union> file_pairs S (tag_header xm) (files (w_os (sy_world s))) \<union> evidence S files xm hs"
  by (simp add: evidence_def)

lemma arrived_mono: "arrived hs i \<le> arrived (x # hs) i"
  by (auto simp: arrived_def)

lemma arrived_Cons: "arrived ((ev, s) # hs) i conf r \<longleftrightarrow> ev = Arrive i conf r \<or> arrived hs i conf r"
  by (auto simp: arrived_def)

lemma event_pairs_key:
  "sys_step N S e xm ev s s' \<Longrightarrow> (t, k) \<in> event_pairs ev \<Longrightarrow> key_ok k"
  by (erule sys_step.cases) (auto simp: event_pairs_def response_pairs_ok)

lemma sys_step_arrived: "sys_step N S e xm (Arrive i conf r) s s' \<Longrightarrow> main_conf conf = xm"
  by (erule sys_arrive_cases)

lemma sys_ok_arrived: "sys_ok N ring map_ok S files xm hs s \<Longrightarrow> arrived hs i conf r \<Longrightarrow> main_conf conf = xm"
  unfolding sys_ok_def by blast

text \<open>The invariant's parts that speak of the past hold after any step.\<close>

lemma sys_ok_step:
  assumes ok: "sys_ok N ring map_ok S files xm hs s" and st: "sys_step N S e xm ev s s'"
    and w': "world_in N ring map_ok (evidence S files xm ((ev, s) # hs)) (sy_world s') L'"
    and k: "kept (sy_world s) (sy_world s')"
    and new: "\<And>i j. sy_jobs s' i = Some j \<Longrightarrow> sy_jobs s i = Some j
      \<or> job_ok (arrived ((ev, s) # hs) i) xm (evidence S files xm ((ev, s) # hs)) (sy_world s') j"
  shows "sys_ok N ring map_ok S files xm ((ev, s) # hs) s'"
proof -
  let ?E = "evidence S files xm hs" and ?E' = "evidence S files xm ((ev, s) # hs)"
  have E: "?E \<subseteq> ?E'" by (simp add: evidence_Cons)
  have "job_ok (arrived ((ev, s) # hs) i) xm ?E' (sy_world s') j" if "sy_jobs s' i = Some j" for i j
    using new [OF that]
  proof
    assume "sy_jobs s i = Some j"
    then have "job_ok (arrived hs i) xm ?E (sy_world s) j" using ok by (simp add: sys_ok_def)
    then show ?thesis by (rule job_ok_mono [OF _ k arrived_mono E])
  qed
  moreover have "main_conf conf = xm" if "arrived ((ev, s) # hs) i conf r" for i conf r
    using that sys_step_arrived st sys_ok_arrived [OF ok] by (auto simp: arrived_Cons)
  moreover have "\<forall>(t, k)\<in>?E'. key_ok k"
    using ok event_pairs_key [OF st] file_pairs_key by (fastforce simp: sys_ok_def evidence_Cons)
  ultimately show ?thesis using w' unfolding sys_ok_def by blast
qed

context site_env
begin

lemma sys_turn_to:
  assumes ok: "sys_ok N ring map_ok S files xm hs s" and j: "sy_jobs s i = Some j"
  shows "\<exists>j' w'. purge_turn N S e j (sy_world s) = Some (j', w')
    \<and> turn_to N ring map_ok files (arrived ((ev, s) # hs) i) xm (evidence S files xm ((ev, s) # hs))
        j (sy_world s) j' w'"
proof -
  let ?E' = "evidence S files xm ((Turn i, s) # hs)" and ?A = "arrived ((Turn i, s) # hs) i"
  let ?ev = "evidence S files xm ((ev, s) # hs)" and ?Av = "arrived ((ev, s) # hs) i"
  have sub: "evidence S files xm hs \<subseteq> ?E'" "?E' \<subseteq> ?ev" "?A \<le> ?Av"
    by (auto simp: evidence_Cons arrived_Cons event_pairs_def)
  obtain L where "world_in N ring map_ok (evidence S files xm hs) (sy_world s) L"
    using ok by (auto simp: sys_ok_def)
  then have w: "world_in N ring map_ok ?E' (sy_world s) L" using sub world_in_mono by blast
  have "job_ok (arrived hs i) xm (evidence S files xm hs) (sy_world s) j"
    using ok j by (auto simp: sys_ok_def)
  then have job: "job_ok ?A xm ?E' (sy_world s) j"
    using sub(1) by (rule job_ok_mono [OF _ kept_refl arrived_mono])
  have "\<And>conf r. ?A conf r \<Longrightarrow> main_conf conf = xm"
    using sys_ok_arrived [OF ok] by (simp add: arrived_Cons)
  moreover have "file_pairs S (tag_header xm) (files (w_os (sy_world s))) \<subseteq> ?E'"
    by (auto simp: evidence_Cons)
  moreover have "\<forall>(t, k)\<in>?E'. key_ok k"
    using ok file_pairs_key by (fastforce simp: sys_ok_def evidence_Cons event_pairs_def)
  ultimately obtain j' w' where t: "purge_turn N S e j (sy_world s) = Some (j', w')"
    "turn_to N ring map_ok files ?A xm ?E' j (sy_world s) j' w'"
    using turn_safe [OF w job] by blast
  have "turn_to N ring map_ok files ?Av xm ?ev j (sy_world s) j' w'"
    using t(2) sub(2) world_in_mono [OF _ sub(2)] job_ok_mono [OF _ kept_refl sub(3) sub(2)]
    unfolding turn_to_def by (meson subsetD)
  with t(1) show ?thesis by blast
qed

lemma sys_step_ok:
  assumes ok: "sys_ok N ring map_ok S files xm hs s" and st: "sys_step N S e xm ev s s'"
  shows "sys_ok N ring map_ok S files xm ((ev, s) # hs) s'"
proof -
  let ?w = "sy_world s" and ?E' = "evidence S files xm ((ev, s) # hs)"
  obtain L where "world_in N ring map_ok (evidence S files xm hs) ?w L"
    using ok by (auto simp: sys_ok_def)
  then have w: "world_in N ring map_ok ?E' ?w L"
    by (rule world_in_mono) (simp add: evidence_Cons)
  have z: "zone_state N ring map_ok (w_zone ?w) L" using w by (simp add: world_in_def)
  have adopt: "sys_ok N ring map_ok S files xm ((ev, s) # hs) (s\<lparr>sy_world := ?w\<lparr>w_zone := z'\<rparr>\<rparr>)"
    if "s' = s\<lparr>sy_world := ?w\<lparr>w_zone := z'\<rparr>\<rparr>" "z' = w_zone ?w \<or> z' = snd (shared N (w_zone ?w))" for z'
  proof -
    have "zone_state N ring map_ok z' L" "z_data (w_zone ?w) \<noteq> None \<longrightarrow> z_data z' \<noteq> None"
      using that(2) z shared_state(1) [OF z prod.collapse [symmetric]]
        shared_placed [OF prod.collapse [symmetric], of "w_zone ?w"] by auto
    then show ?thesis
      using w st that(1) by (intro sys_ok_step [OF ok, of e ev _ L]) (auto simp: world_in_def kept_def)
  qed
  show ?thesis
    using st
  proof cases
    case (sys_arrive i conf r)
    then show ?thesis
      using w st by (intro sys_ok_step [OF ok st]) (auto simp: arrived_Cons split: if_splits)
  next
    case (sys_turn i j j' w')
    obtain L' where "turn_to N ring map_ok files (arrived ((ev, s) # hs) i) xm ?E' j ?w j' w'"
      "world_in N ring map_ok ?E' w' L'"
      using sys_turn_to [OF ok sys_turn(3), of e ev] sys_turn(5) by (auto simp: turn_to_def)
    then show ?thesis
      using sys_turn(2) by (intro sys_ok_step [OF ok st]) (auto simp: turn_to_def split: if_splits)
  next
    case (sys_leave i j)
    then show ?thesis using w by (intro sys_ok_step [OF ok st]) (auto split: if_splits)
  next
    case (sys_record conf r z')
    obtain L' where "zone_state N ring map_ok z' L'" "lru_pairs L' \<subseteq> lru_pairs L \<union> response_pairs conf r"
      "z_data (w_zone ?w) \<noteq> None \<longrightarrow> z_data z' \<noteq> None"
      using record_pairs [OF z, of conf r] sys_record(5) by auto
    then have "world_in N ring map_ok ?E' (?w\<lparr>w_zone := z'\<rparr>) L'" "kept ?w (?w\<lparr>w_zone := z'\<rparr>)"
      using w sys_record(1) by (auto simp: world_in_def kept_def evidence_Cons event_pairs_def)
    then show ?thesis using sys_record(2) by (intro sys_ok_step [OF ok st]) auto
  next
    case (sys_report V conf r ans z')
    then show ?thesis
      using adopt [of z'] status_handler_zone [of N V conf r "w_zone ?w"] by simp
  next
    case (sys_place rc z')
    then have "z' = snd (shared N (w_zone ?w))"
      by (auto simp: zone_init_def split: prod.splits sum.splits)
    then show ?thesis using adopt [of z'] sys_place by simp
  next
    case (sys_store cs os')
    then show ?thesis
      using w by (intro sys_ok_step [OF ok st]) (auto simp: world_in_def kept_def)
  qed
qed

lemma path_ok:
  "sys_path N S e xm s0 hs s \<Longrightarrow> initial_system s0 \<Longrightarrow> sys_ok N ring map_ok S files xm hs s"
proof (induction rule: sys_path.induct)
  case path_start
  then have "world_in N ring map_ok {} (sy_world s0) []"
    by (simp add: initial_system_def initial_world_def world_in_def zone_state_def)
  then show ?case
    using path_start by (auto simp: sys_ok_def evidence_def arrived_def initial_system_def)
next
  case (path_step hs s ev s')
  then show ?case using sys_step_ok by blast
qed

text \<open>On every path, the next turn of every job succeeds.\<close>

lemma path_turn:
  assumes "sys_path N S e xm s0 hs s" "initial_system s0" "sy_jobs s i = Some j"
  shows "purge_turn N S e j (sy_world s) \<noteq> None"
  using sys_turn_to [OF path_ok [OF assms(1,2)] assms(3), of e "Turn i"] by auto

text \<open>A file a turn removes: a request named a tag that there is evidence the file's key had.\<close>

lemma path_removes:
  assumes path: "sys_path N S e xm s0 hs s" "initial_system s0"
    and st: "sys_step N S e xm (Turn i) s s'"
    and x: "files (w_os (sy_world s')) x \<noteq> files (w_os (sy_world s)) x"
  shows "files (w_os (sy_world s')) x = None
    \<and> (\<exists>conf r t k. arrived hs i conf r \<and> purge_request r t \<and> key_from_path x = Some k
        \<and> (t, k) \<in> evidence S files xm ((Turn i, s) # hs))"
proof -
  obtain j j' w' where t: "sy_jobs s i = Some j" "purge_turn N S e j (sy_world s) = Some (j', w')"
    "sy_world s' = w'"
    using st by (auto elim: sys_turn_cases)
  have ok: "sys_ok N ring map_ok S files xm hs s" by (rule path_ok [OF path])
  then have job: "job_ok (arrived hs i) xm (evidence S files xm hs) (sy_world s) j"
    using t(1) by (auto simp: sys_ok_def)
  have "turn_to N ring map_ok files (arrived ((Turn i, s) # hs) i) xm
      (evidence S files xm ((Turn i, s) # hs)) j (sy_world s) j' w'"
    using sys_turn_to [OF ok t(1), of e "Turn i"] t(2) by auto
  then obtain c k where c: "files (w_os w') x = None" "job_ctx j = Some c" "key_from_path x = Some k"
    "(cx_tag c, k) \<in> evidence S files xm ((Turn i, s) # hs)"
    using x t(3) unfolding turn_to_def by metis
  obtain r where "arrived hs i (cx_conf c) r" "purge_request r (cx_tag c)"
    using job_ok_ctx [OF job c(2)] by (auto simp: ctx_ok_def)
  then show ?thesis using c t(3) by blast
qed

end

end
