(* ===== verification/Worker_Progress.thy ===== *)
theory Worker_Progress
  imports Worker_Safety
begin

text \<open>
  What a purge comes to among other workers. Every turn brings its job nearer to the answer, so
  a worker that keeps being scheduled answers, whatever the others do. And when no call of the
  operating system fails, the purge that took its tag while the index knew its files, or had no
  entry for it, has removed them all when it answers, unless NGINX stored new ones meanwhile:
  the other workers' steps cannot spoil it.
\<close>

section \<open>Every turn is progress\<close>

fun job_rank :: "job \<Rightarrow> nat \<times> nat" where
  "job_rank (Arrived conf r) = (4, 0)"
| "job_rank (Taking c) = (3, 0)"
| "job_rank (Falling c) = (2, 0)"
| "job_rank (Clearing c keys pr ks n) = (1, 2 * length ks)"
| "job_rank (Unlinking c keys pr key b ks n) = (1, 2 * length ks + 1)"
| "job_rank (Walking c s names rc) = (1, 3 * length names)"
| "job_rank (Invalidating c s path key names rc) = (1, 3 * length names + 2)"
| "job_rank (Removing c s path b names rc) = (1, 3 * length names + 1)"
| "job_rank (Indexing c s key tags names rc) = (1, 3 * length names + 1)"
| "job_rank (Answered rc r) = (0, 0)"

abbreviation job_order :: "((nat \<times> nat) \<times> (nat \<times> nat)) set" where
  "job_order \<equiv> less_than <*lex*> less_than"

lemma arrive_turn_job:
  "arrive_turn N conf r w = Some (j, w') \<Longrightarrow> (\<exists>c. j = Taking c) \<or> answered j"
  by (auto simp: arrive_turn_def Let_def split: if_splits option.splits prod.splits bool.splits)

lemma scan_end_job: "scan_end c s rc w = Some (j, w') \<Longrightarrow> answered j \<and> w' = w"
  using scan_end_answers [of c s rc w] by auto

lemma answered_rank: "answered j \<Longrightarrow> job_rank j = (0, 0)"
  by (cases j) auto

lemma fall_turn_job:
  "fall_turn N S c w = Some (j, w') \<Longrightarrow> (\<exists>s names rc. j = Walking c s names rc) \<or> answered j"
  by (auto simp: fall_turn_def Let_def split: if_splits option.splits prod.splits)

lemma read_turn_job:
  assumes "read_turn S c s0 name names rc w = (j, w')"
  obtains s where "j = Walking c s names rc" | s p k where "j = Invalidating c s p k names rc"
  | s k ts where "j = Indexing c s k ts names rc"
  using assms by (auto simp: read_turn_def Let_def split: option.splits prod.splits if_splits)

lemma clear_turn_job:
  "clear_turn N e c keys pr ks n w = Some (j, w') \<Longrightarrow>
   (case ks of [] \<Rightarrow> answered j | k # ks' \<Rightarrow> \<exists>b. j = Unlinking c keys pr k b ks' n)"
  by (auto simp: clear_turn_def index_answer_def Let_def split: list.splits option.splits prod.splits)

lemma turn_progress:
  assumes "purge_turn N S e j w = Some (j', w')" "\<not> answered j"
  shows "(job_rank j', job_rank j) \<in> job_order"
proof (cases j)
  case (Arrived conf r)
  then have "(\<exists>c. j' = Taking c) \<or> answered j'" using assms(1) arrive_turn_job by simp
  then show ?thesis using Arrived answered_rank by auto
next
  case (Taking c)
  then show ?thesis using assms(1) by (auto simp: take_turn_def split: option.splits)
next
  case (Clearing c keys pr ks n)
  then have "case ks of [] \<Rightarrow> answered j' | k # ks' \<Rightarrow> \<exists>b. j' = Unlinking c keys pr k b ks' n"
    using assms(1) clear_turn_job by simp
  then show ?thesis using Clearing answered_rank by (auto split: list.splits)
next
  case (Unlinking c keys pr key b ks n)
  then show ?thesis using assms(1) by (auto simp: unlink_turn_def split: option.splits)
next
  case (Falling c)
  then have "(\<exists>s names rc. j' = Walking c s names rc) \<or> answered j'" using assms(1) fall_turn_job by simp
  then show ?thesis using Falling answered_rank by auto
next
  case (Walking c s names rc)
  show ?thesis
  proof (cases names)
    case Nil
    then show ?thesis using Walking assms(1) scan_end_job answered_rank by fastforce
  next
    case (Cons name ns)
    then have "read_turn S c s name ns rc w = (j', w')" using Walking assms(1) by simp
    then show ?thesis using Walking Cons by (cases rule: read_turn_job) simp_all
  qed
next
  case (Invalidating c s path key names rc)
  then show ?thesis using assms(1) by auto
next
  case (Removing c s path b names rc)
  then show ?thesis using assms(1) by (auto simp: remove_turn_def Let_def split: prod.splits)
next
  case (Indexing c s key tags names rc)
  then show ?thesis using assms(1) by (auto simp: index_turn_def split: option.splits)
next
  case (Answered rc r)
  then show ?thesis using assms(2) by simp
qed

section \<open>A scheduled worker answers\<close>

text \<open>An infinite run, and a worker that is never left waiting for good.\<close>

definition sys_run ::
  "('a, 'm, 'q) ngx \<Rightarrow> 'w os \<Rightarrow> endian \<Rightarrow> main_conf option \<Rightarrow> (nat \<Rightarrow> event) \<Rightarrow>
   (nat \<Rightarrow> ('a, 'm, 'q, 'w) system) \<Rightarrow> bool" where
  "sys_run N S e xm ev \<sigma> \<longleftrightarrow> (\<forall>n. sys_step N S e xm (ev n) (\<sigma> n) (\<sigma> (Suc n)))"

definition scheduled :: "(nat \<Rightarrow> event) \<Rightarrow> (nat \<Rightarrow> ('a, 'm, 'q, 'w) system) \<Rightarrow> nat \<Rightarrow> bool" where
  "scheduled ev \<sigma> i \<longleftrightarrow>
     (\<forall>n j. sy_jobs (\<sigma> n) i = Some j \<and> \<not> answered j \<longrightarrow> (\<exists>m\<ge>n. ev m = Turn i))"

lemma step_other_job:
  assumes "sys_step N S e xm ev s s'" "sy_jobs s i = Some j" "\<not> answered j" "ev \<noteq> Turn i"
  shows "sy_jobs s' i = Some j"
  using assms by cases auto

lemma run_waits:
  assumes "sys_run N S e xm ev \<sigma>" "sy_jobs (\<sigma> n) i = Some j" "\<not> answered j"
    and "\<And>k. n \<le> k \<Longrightarrow> k < n + d \<Longrightarrow> ev k \<noteq> Turn i"
  shows "sy_jobs (\<sigma> (n + d)) i = Some j"
  using assms(4)
proof (induction d)
  case (Suc d)
  then have "sy_jobs (\<sigma> (n + d)) i = Some j" by simp
  moreover have "sys_step N S e xm (ev (n + d)) (\<sigma> (n + d)) (\<sigma> (n + Suc d))"
    using assms(1) by (simp add: sys_run_def)
  ultimately show ?case using step_other_job assms(3) Suc.prems by (metis add_Suc_right le_add1 lessI)
qed (simp add: assms(2))

lemma run_answers:
  assumes run: "sys_run N S e xm ev \<sigma>" and sched: "scheduled ev \<sigma> i"
  shows "sy_jobs (\<sigma> n) i = Some j \<Longrightarrow> \<exists>m\<ge>n. \<exists>rc r. sy_jobs (\<sigma> m) i = Some (Answered rc r)"
proof (induction "job_rank j" arbitrary: n j rule: wf_induct_rule [OF wf_lex_prod [OF wf_less_than wf_less_than]])
  case (1 j)
  show ?case
  proof (cases "answered j")
    case True
    then obtain rc r where "j = Answered rc r" by (cases j) auto
    then show ?thesis using 1 by blast
  next
    case False
    then have ex: "\<exists>d. ev (n + d) = Turn i"
      using sched 1(2) unfolding scheduled_def by (metis le_iff_add)
    define d where "d = (LEAST d. ev (n + d) = Turn i)"
    have d: "ev (n + d) = Turn i" unfolding d_def by (rule LeastI_ex [OF ex])
    have "ev k \<noteq> Turn i" if "n \<le> k" "k < n + d" for k
      using not_less_Least [of "k - n" "\<lambda>d. ev (n + d) = Turn i"] that unfolding d_def by auto
    then have j: "sy_jobs (\<sigma> (n + d)) i = Some j" by (rule run_waits [OF run 1(2) False])
    have "sys_step N S e xm (Turn i) (\<sigma> (n + d)) (\<sigma> (Suc (n + d)))"
      using run d unfolding sys_run_def by metis
    then obtain j' w' where j': "purge_turn N S e j (sy_world (\<sigma> (n + d))) = Some (j', w')"
      "sy_jobs (\<sigma> (Suc (n + d))) i = Some j'"
      using j by (auto elim: sys_turn_cases)
    have "\<exists>m\<ge>Suc (n + d). \<exists>rc r. sy_jobs (\<sigma> m) i = Some (Answered rc r)"
      using 1(1) [OF turn_progress [OF j'(1) False] j'(2)] .
    then show ?thesis by (meson Suc_leD le_add1 order_trans)
  qed
qed

section \<open>A purge is complete among other workers\<close>

text \<open>The files in a cache directory that carry a tag, and the job that still has them before it.\<close>

definition carrying ::
  "'w os \<Rightarrow> bytes \<Rightarrow> cpath \<Rightarrow> bytes \<Rightarrow> (bytes \<Rightarrow> bytes option) \<Rightarrow> bytes set" where
  "carrying S hdr p tag F = {x. in_dir (p_name p) x \<and> carries S MAX_HEADER_BLOCK hdr F tag x}"

lemma purged_clean_carrying: "purged_clean S hdr p F tag \<longleftrightarrow> carrying S hdr p tag F = {}"
  by (auto simp: purged_clean_def carrying_def)

lemma carrying_removed:
  assumes "\<forall>x. F' x = F x \<or> F' x = None"
  shows "carrying S hdr p tag F' \<subseteq> carrying S hdr p tag F - {x. F' x = None}"
proof
  fix x assume x: "x \<in> carrying S hdr p tag F'"
  then have "F' x \<noteq> None" using carries_file by (auto simp: carrying_def)
  moreover from this have "F' x = F x" using assms by metis
  ultimately show "x \<in> carrying S hdr p tag F - {x. F' x = None}"
    using x carries_cong [of F' x F S MAX_HEADER_BLOCK hdr tag] by (simp add: carrying_def)
qed

text \<open>
  \<open>C\<close> is the set of files that carry the tag. A scan's context is fixed: its tag, its cache, a
  location with the fallback on.
\<close>

fun job_covers :: "(cpath \<Rightarrow> bytes \<Rightarrow> bytes) \<Rightarrow> cpath \<Rightarrow> bytes set \<Rightarrow> job \<Rightarrow> bool" where
  "job_covers dirs p C (Clearing c keys pr ks n) \<longleftrightarrow> C \<subseteq> cache_file dirs p ` set ks"
| "job_covers dirs p C (Unlinking c keys pr key b ks n) \<longleftrightarrow> C \<subseteq> cache_file dirs p ` set (key # ks)"
| "job_covers dirs p C (Falling c) \<longleftrightarrow> True"
| "job_covers dirs p C (Walking c s names rc) \<longleftrightarrow> C \<subseteq> set names"
| "job_covers dirs p C (Invalidating c s path key names rc) \<longleftrightarrow> C \<subseteq> set (path # names)"
| "job_covers dirs p C (Removing c s path b names rc) \<longleftrightarrow> C \<subseteq> set (path # names)"
| "job_covers dirs p C (Indexing c s key tags names rc) \<longleftrightarrow> C \<subseteq> set names"
| "job_covers dirs p C (Answered rc r) \<longleftrightarrow> C = {}"
| "job_covers dirs p C j \<longleftrightarrow> False"

lemma job_covers_mono: "job_covers dirs p C j \<Longrightarrow> C' \<subseteq> C \<Longrightarrow> job_covers dirs p C' j"
  by (cases j) auto

definition fallback_on :: "purge_ctx \<Rightarrow> bool" where
  "fallback_on c \<longleftrightarrow> (\<exists>xlcf. location_conf (cx_conf c) = Some xlcf \<and> fallback xlcf \<noteq> 0)"

definition cache_dir :: "('a, 'm, 'q, 'w) world \<Rightarrow> zone_id \<Rightarrow> cpath \<Rightarrow> bool" where
  "cache_dir w i p \<longleftrightarrow> (\<exists>fc. w_caches w i = Some fc \<and> cache_at fc p)"

lemma cache_dir_kept: "kept w w' \<Longrightarrow> cache_dir w i p \<Longrightarrow> cache_dir w' i p"
  unfolding kept_def cache_dir_def cache_at_def
  by (metis (no_types, lifting) map_option_eq_Some)

lemma turn_ctx:
  assumes "purge_turn N S e j w = Some (j', w')" "job_ctx j = Some c"
  shows "job_ctx j' = Some c \<or> answered j'"
proof (cases j)
  case (Clearing c keys pr ks n)
  then show ?thesis using assms clear_turn_job [of N e c keys pr ks n w j' w'] by (auto split: list.splits)
next
  case (Falling c)
  then show ?thesis
    using assms by (auto simp: fall_turn_def Let_def split: if_splits option.splits prod.splits)
next
  case (Walking c s names rc)
  then show ?thesis
    using assms by (cases names) (auto dest: scan_end_job elim: read_turn_job)
qed (use assms in \<open>auto simp: take_turn_def unlink_turn_def remove_turn_def index_turn_def Let_def
    split: option.splits prod.splits\<close>)

context site_live
begin

lemma read_turn_hit:
  assumes name: "0 \<notin> set name" and sc: "scan_ok xm c s"
    and hit: "carries S MAX_HEADER_BLOCK (tag_header xm) (files (w_os w)) (cx_tag c) name"
  shows "\<exists>s' key w1. read_turn S c s name names rc w = (Invalidating c s' name key names rc, w\<lparr>w_os := w1\<rparr>)"
proof -
  let ?hdr = "tag_header xm"
  obtain key d b v where k: "key_from_path name = Some key" "files (w_os w) name = Some d"
    "stored_block S MAX_HEADER_BLOCK d = Some b" "find_header b ?hdr = Some v" "cx_tag c \<in> set (split_tags v)"
    using hit by (auto simp: carries_def entry_at_def split: option.splits)
  obtain m buf w1 where rd: "read_header_block S name (sc_buf s) (w_os w) = ((m, buf), w1)"
    by (metis surj_pair)
  have sc': "length (sc_buf s) = MAX_HEADER_BLOCK" "sc_tag s = cx_tag c" "sc_header s = ?hdr"
    using sc by (simp_all add: scan_ok_def)
  have "m \<noteq> None" using read_complete [of name "sc_buf s" "w_os w" buf w1 d] rd k sc' by auto
  then obtain n where n: "m = Some n" by auto
  have "take n buf = b" using read_sound(3) [OF rd n] k sc' by auto
  then show ?thesis
    using k n sc'
    by (auto simp: read_turn_def rd c_string_id [OF name] Let_def list_ex_iff)
qed

lemma turn_covers:
  assumes j: "purge_turn N S e j w = Some (j', w')" and ok: "job_ok A xm E w j"
    and c: "job_ctx j = Some c" "cx_tag c = tag" "fallback_on c" "cache_dir w (cx_cache c) p"
    and E: "\<forall>(t, k)\<in>E. key_ok k" and A: "\<And>conf r. A conf r \<Longrightarrow> main_conf conf = Some xmcf"
    and xm: "xm = Some xmcf"
    and cover: "job_covers dirs p (carrying S (tag_header xm) p tag (files (w_os w))) j"
  shows "job_covers dirs p (carrying S (tag_header xm) p tag (files (w_os w'))) j'"
proof (cases j)
  case (Clearing c' keys pr ks n)
  have os: "w_os w' = w_os w"
    using j Clearing
    by (auto simp: clear_turn_def index_answer_def cleared_node_def Let_def split: list.splits option.splits prod.splits)
  have "case ks of [] \<Rightarrow> answered j' | k # ks' \<Rightarrow> \<exists>b. j' = Unlinking c' keys pr k b ks' n"
    using j Clearing clear_turn_job by simp
  then show ?thesis using cover os Clearing by (cases j') (auto split: list.splits)
next
  case (Unlinking c' keys pr key b ks n)
  obtain fc where fc: "w_caches w (cx_cache c) = Some fc" "fc_path fc = Some p" "0 \<notin> set (p_name p)"
    using c(4) by (auto simp: cache_dir_def cache_at_def)
  have "key_ok key" using ok E Unlinking by auto
  then obtain w1 where "delete_file S (Some p) key (w_os w) = Some (files (w_os w) (cache_file dirs p key) \<noteq> None, w1)"
    "files w1 = (files (w_os w))(cache_file dirs p key := None)"
    using delete_file_live fc(3) by blast
  then have j': "\<exists>n'. j' = Clearing c' keys pr ks n'"
    and f: "files (w_os w') = (files (w_os w))(cache_file dirs p key := None)"
    using j Unlinking fc c(1) by (auto simp: unlink_turn_def split: option.splits)
  have "\<forall>x. files (w_os w') x = files (w_os w) x \<or> files (w_os w') x = None"
    and "files (w_os w') (cache_file dirs p key) = None" by (simp_all add: f)
  then have "carrying S (tag_header xm) p tag (files (w_os w'))
      \<subseteq> carrying S (tag_header xm) p tag (files (w_os w)) - {cache_file dirs p key}"
    using carrying_removed by blast
  moreover have "carrying S (tag_header xm) p tag (files (w_os w))
      \<subseteq> insert (cache_file dirs p key) (cache_file dirs p ` set ks)" using cover Unlinking by simp
  ultimately have "carrying S (tag_header xm) p tag (files (w_os w')) \<subseteq> cache_file dirs p ` set ks" by blast
  then show ?thesis using j' by auto
next
  case (Falling c')
  obtain fc where fc: "w_caches w (cx_cache c) = Some fc" "fc_path fc = Some p"
    using c(4) by (auto simp: cache_dir_def cache_at_def)
  obtain xlcf where l: "location_conf (cx_conf c) = Some xlcf" "fallback xlcf \<noteq> 0"
    using c(3) by (auto simp: fallback_on_def)
  have m: "main_conf (cx_conf c) = Some xmcf" using ok A c(1) Falling by (auto simp: ctx_ok_def)
  obtain buf w1 where al: "pool_alloc S MAX_HEADER_BLOCK (w_os w) = (Some buf, w1)"
    using alloc_live [of MAX_HEADER_BLOCK "w_os w"]
    by (cases "pool_alloc S MAX_HEADER_BLOCK (w_os w)") auto
  obtain names rc where walk: "os_walk S (p_name p) w1 = (names, rc)" by fastforce
  have f: "files (w_os w') = files (w_os w)" "\<exists>s. j' = Walking c s names rc"
    using j Falling fc l m al walk c(1) alloc_files [OF al]
    by (auto simp: fall_turn_def Let_def split: prod.splits)
  have "x \<in> set names" if "x \<in> carrying S (tag_header xm) p tag (files (w_os w))" for x
    using that walk_live [of w1 x "p_name p"] walk alloc_files [OF al] carries_file
    by (fastforce simp: carrying_def)
  then show ?thesis using f by auto
next
  case (Walking c' s names rc)
  show ?thesis
  proof (cases names)
    case Nil
    then have "answered j'" "w' = w" using j Walking scan_end_job by fastforce+
    then show ?thesis using cover Walking Nil by (cases j') auto
  next
    case (Cons name ns)
    have name: "0 \<notin> set name" "scan_ok xm c s" using ok Walking Cons c(1) by (auto simp: names_ok_def)
    have rd: "read_turn S c s name ns rc w = (j', w')" using j Walking Cons c(1) by simp
    have f: "files (w_os w') = files (w_os w)"
      by (rule read_turn_cases [OF name, of ns rc w]) (use rd in auto)
    show ?thesis
    proof (cases "carries S MAX_HEADER_BLOCK (tag_header xm) (files (w_os w)) tag name")
      case True
      then obtain s' key w1 where "j' = Invalidating c s' name key ns rc"
        using read_turn_hit [OF name, of w ns rc] c(2) rd by auto
      then show ?thesis using cover Walking Cons f by simp
    next
      case False
      then have "carrying S (tag_header xm) p tag (files (w_os w)) \<subseteq> set ns"
        using cover Walking Cons by (auto simp: carrying_def)
      then show ?thesis using f by (cases rule: read_turn_job [OF rd]) auto
    qed
  qed
next
  case (Invalidating c' s path key names rc)
  then show ?thesis using j cover by (auto simp: cleared_node_def split: option.splits)
next
  case (Removing c' s path b names rc)
  obtain urc w1 where un: "os_unlink S path (w_os w) = (urc, w1)" by fastforce
  then have j': "\<exists>s'. j' = Walking c' s' names rc" "w_os w' = w1"
    using j Removing by (auto simp: remove_turn_def)
  have "\<forall>x. files w1 x = files (w_os w) x \<or> files w1 x = None" "files w1 path = None"
    using unlink_files [OF un] unlink_live [of "w_os w" path] un
    by (cases "files (w_os w) path"; auto split: if_splits)+
  then have "carrying S (tag_header xm) p tag (files w1)
      \<subseteq> carrying S (tag_header xm) p tag (files (w_os w)) - {path}"
    using carrying_removed [of "files w1" "files (w_os w)" S "tag_header xm" p tag] by auto
  moreover have "carrying S (tag_header xm) p tag (files (w_os w)) \<subseteq> insert path (set names)"
    using cover Removing by simp
  ultimately have "carrying S (tag_header xm) p tag (files w1) \<subseteq> set names" by blast
  then show ?thesis using j' by auto
next
  case (Indexing c' s key tags names rc)
  then show ?thesis using j cover by (auto simp: index_turn_def split: option.splits)
qed (use c cover in auto)

end

context site_env
begin

text \<open>What a step may do to the files and the caches.\<close>

lemma sys_step_effect:
  assumes ok: "sys_ok N ring map_ok S files xm hs s" and st: "sys_step N S e xm ev s s'"
  shows "kept (sy_world s) (sy_world s')"
    and "ev \<noteq> Stored \<Longrightarrow> \<forall>x. files (w_os (sy_world s')) x = files (w_os (sy_world s)) x
      \<or> files (w_os (sy_world s')) x = None"
proof -
  let ?w = "sy_world s" and ?w' = "sy_world s'"
  obtain L where z: "zone_state N ring map_ok (w_zone ?w) L"
    using ok by (auto simp: sys_ok_def world_in_def)
  note placed = shared_placed [OF prod.collapse [symmetric], of "w_zone ?w"]
  have "kept ?w ?w' \<and> (ev \<noteq> Stored \<longrightarrow>
      (\<forall>x. files (w_os ?w') x = files (w_os ?w) x \<or> files (w_os ?w') x = None))"
    using st
  proof cases
    case (sys_turn i j j' w')
    then show ?thesis using sys_turn_to [OF ok sys_turn(3), of e ev] by (auto simp: turn_to_def)
  next
    case (sys_record conf r z')
    then show ?thesis using record_pairs [OF z, of conf r] by (auto simp: kept_def)
  next
    case (sys_report V conf r ans z')
    then show ?thesis
      using status_handler_zone [of N V conf r "w_zone ?w"] placed by (auto simp: kept_def)
  next
    case (sys_place rc z')
    then have "z' = snd (shared N (w_zone ?w))"
      by (auto simp: zone_init_def split: prod.splits sum.splits)
    then show ?thesis using sys_place placed by (auto simp: kept_def)
  qed (auto simp: kept_def)
  then show "kept ?w ?w'"
    "ev \<noteq> Stored \<Longrightarrow> \<forall>x. files (w_os ?w') x = files (w_os ?w) x \<or> files (w_os ?w') x = None" by auto
qed

end

text \<open>
  The rely condition of a purge: its worker keeps the job, and what NGINX stores meanwhile does
  not carry the tag. \<open>D\<close> gives the files that carry it.
\<close>

fun calm ::
  "(('a, 'm, 'q, 'w) system \<Rightarrow> bytes set) \<Rightarrow> nat \<Rightarrow> (event \<times> ('a, 'm, 'q, 'w) system) list \<Rightarrow>
   ('a, 'm, 'q, 'w) system \<Rightarrow> bool" where
  "calm D i [] s \<longleftrightarrow> True"
| "calm D i ((ev, s0) # hs) s \<longleftrightarrow> ev \<noteq> Leave i \<and> (ev = Stored \<longrightarrow> D s \<subseteq> D s0) \<and> calm D i hs s0"

definition carrying_in ::
  "'w os \<Rightarrow> ('w \<Rightarrow> bytes \<Rightarrow> bytes option) \<Rightarrow> bytes \<Rightarrow> cpath \<Rightarrow> bytes \<Rightarrow> ('a, 'm, 'q, 'w) system \<Rightarrow> bytes set" where
  "carrying_in S files hdr p tag s = carrying S hdr p tag (files (w_os (sy_world s)))"

lemma path_append:
  "sys_path N S e xm s hs' s' \<Longrightarrow> sys_path N S e xm s0 hs s \<Longrightarrow> sys_path N S e xm s0 (hs' @ hs) s'"
  by (induction rule: sys_path.induct) (auto intro: path_step)

context site_live
begin

lemma take_covers:
  assumes rel: "zone_rel N ring map_ok (w_zone w) L"
    and turn: "purge_turn N S e (Taking c) w = Some (j', w')"
    and cover: "map_of L (cx_tag c) = None \<or> index_covers S dirs hdr p (files (w_os w)) (cx_tag c) L"
  shows "job_covers dirs p (carrying S hdr p (cx_tag c) (files (w_os w'))) j' \<and> job_ctx j' = Some c"
proof -
  obtain v z where tk: "zone_take N (cx_tag c) (w_zone w) = Some (v, z)"
    "map_option items v = map_of L (cx_tag c)"
    using zone_take_rel [OF rel] by blast
  show ?thesis
  proof (cases v)
    case None
    then show ?thesis using turn tk by (auto simp: take_turn_def)
  next
    case (Some keys)
    then have "carrying S hdr p (cx_tag c) (files (w_os w)) \<subseteq> cache_file dirs p ` set (items keys)"
      using tk(2) cover by (auto simp: carrying_def index_covers_def lru_pairs_def)
    then show ?thesis using turn tk Some by (auto simp: take_turn_def)
  qed
qed

lemma calm_covers:
  assumes "sys_path N S e xm s1 hs2 s2" "sys_ok N ring map_ok S files xm hs1 s1" "xm = Some xmcf"
    and "sy_jobs s1 i = Some j1" "job_ctx j1 = Some c" "fallback_on c" "cache_dir (sy_world s1) (cx_cache c) p"
    and "job_covers dirs p (carrying_in S files (tag_header xm) p (cx_tag c) s1) j1"
  shows "calm (carrying_in S files (tag_header xm) p (cx_tag c)) i hs2 s2 \<Longrightarrow>
    sys_ok N ring map_ok S files xm (hs2 @ hs1) s2 \<and> cache_dir (sy_world s2) (cx_cache c) p
    \<and> (\<exists>j. sy_jobs s2 i = Some j \<and> (job_ctx j = Some c \<or> answered j)
          \<and> job_covers dirs p (carrying_in S files (tag_header xm) p (cx_tag c) s2) j)"
  using assms
proof (induction rule: sys_path.induct)
  case path_start
  then show ?case by auto
next
  case (path_step hs s ev s')
  let ?D = "carrying_in S files (tag_header xm) p (cx_tag c)"
  obtain j where ok: "sys_ok N ring map_ok S files xm (hs @ hs1) s" "cache_dir (sy_world s) (cx_cache c) p"
    "sy_jobs s i = Some j" "job_ctx j = Some c \<or> answered j" "job_covers dirs p (?D s) j"
    using path_step by auto
  note eff = sys_step_effect [OF ok(1) path_step(2)]
  have D: "?D s' \<subseteq> ?D s"
  proof (cases "ev = Stored")
    case True
    then show ?thesis using path_step.prems(1) by simp
  next
    case False
    then show ?thesis using carrying_removed [OF eff(2)] unfolding carrying_in_def by blast
  qed
  have "\<exists>j'. sy_jobs s' i = Some j' \<and> (job_ctx j' = Some c \<or> answered j') \<and> job_covers dirs p (?D s') j'"
  proof (cases "ev = Turn i")
    case False
    have "sy_jobs s' i = Some j"
      using path_step(2) ok(3) False path_step.prems(1) by cases auto
    then show ?thesis using ok(4,5) D job_covers_mono by blast
  next
    case True
    then obtain j' where t: "purge_turn N S e j (sy_world s) = Some (j', sy_world s')" "sy_jobs s' i = Some j'"
      "\<not> answered j"
      using path_step(2) ok(3) by (auto elim: sys_turn_cases)
    have c: "job_ctx j = Some c" using ok(4) t(3) by simp
    have job: "job_ok (arrived (hs @ hs1) i) xm (evidence S files xm (hs @ hs1)) (sy_world s) j"
      and E: "\<forall>(t, k)\<in>evidence S files xm (hs @ hs1). key_ok k"
      using ok(1,3) by (simp_all add: sys_ok_def)
    have A: "\<And>conf r. arrived (hs @ hs1) i conf r \<Longrightarrow> main_conf conf = Some xmcf"
      using sys_ok_arrived [OF ok(1)] path_step.prems(3) by simp
    have "job_covers dirs p (?D s') j'"
      using turn_covers [OF t(1) job c refl path_step.prems(6) ok(2) E A path_step.prems(3)] ok(5)
      by (simp add: carrying_in_def)
    then show ?thesis using t(2) turn_ctx [OF t(1) c] by blast
  qed
  then show ?case
    using sys_step_ok [OF ok(1) path_step(2)] cache_dir_kept [OF eff(1) ok(2)] by simp
qed

text \<open>The purge's answer comes when no file that carries the tag is left.\<close>

lemma path_purge_complete:
  assumes path: "sys_path N S e xm s0 hs s" "initial_system s0" "xm = Some xmcf"
    and job: "sy_jobs s i = Some (Taking c)" "fallback_on c" "cache_dir (sy_world s) (cx_cache c) p"
    and rel: "zone_rel N ring map_ok (w_zone (sy_world s)) L"
    and cover: "map_of L (cx_tag c) = None
      \<or> index_covers S dirs (header xmcf) p (files (w_os (sy_world s))) (cx_tag c) L"
    and turn: "sys_step N S e xm (Turn i) s s1"
    and rest: "sys_path N S e xm s1 hs2 s2" "calm (carrying_in S files (header xmcf) p (cx_tag c)) i hs2 s2"
    and fin: "sy_jobs s2 i = Some j" "answered j"
  shows "purged_clean S (header xmcf) p (files (w_os (sy_world s2))) (cx_tag c)"
proof -
  have ok: "sys_ok N ring map_ok S files xm hs s" by (rule path_ok [OF path(1,2)])
  have h: "tag_header xm = header xmcf" by (simp add: tag_header_def path(3))
  obtain j1 where t: "purge_turn N S e (Taking c) (sy_world s) = Some (j1, sy_world s1)" "sy_jobs s1 i = Some j1"
    using turn job(1) by (auto elim!: sys_turn_cases)
  note tc = take_covers [OF rel t(1) cover]
  have ok1: "sys_ok N ring map_ok S files xm ((Turn i, s) # hs) s1" by (rule sys_step_ok [OF ok turn])
  have dir: "cache_dir (sy_world s1) (cx_cache c) p"
    by (rule cache_dir_kept [OF sys_step_effect(1) [OF ok turn] job(3)])
  have "job_covers dirs p (carrying_in S files (tag_header xm) p (cx_tag c) s2) j"
    using calm_covers [OF rest(1) ok1 path(3) t(2) _ job(2) dir] tc rest(2) fin(1)
    by (auto simp: h carrying_in_def)
  then show ?thesis using fin(2) by (cases j) (auto simp: purged_clean_carrying carrying_in_def h)
qed

end

end
