(* ===== verification/Worker_Properties.thy ===== *)
theory Worker_Properties
  imports Worker_Progress Reference_World
begin

text \<open>
  The properties of the workers' transition system, with a concrete server for their
  witnesses: one purge request arrives on a fresh zone and its worker is then scheduled alone.
\<close>

section \<open>One worker scheduled alone\<close>

text \<open>The next step of worker 0: its job's turn, or nothing once it has answered.\<close>

definition solo_event :: "('a, 'm, 'q, 'w) system \<Rightarrow> event" where
  "solo_event s =
     (case sy_jobs s 0 of None \<Rightarrow> Stored | Some j \<Rightarrow> if answered j then Stored else Turn 0)"

definition solo_next ::
  "('a, 'm, 'q) ngx \<Rightarrow> 'w os \<Rightarrow> endian \<Rightarrow> ('a, 'm, 'q, 'w) system \<Rightarrow> ('a, 'm, 'q, 'w) system" where
  "solo_next N S e s =
     (case sy_jobs s 0 of
        None \<Rightarrow> s
      | Some j \<Rightarrow>
          if answered j then s
          else
            (case purge_turn N S e j (sy_world s) of
               None \<Rightarrow> s
             | Some (j', w') \<Rightarrow> \<lparr>sy_jobs = (sy_jobs s)(0 \<mapsto> j'), sy_world = w'\<rparr>))"

primrec solo ::
  "('a, 'm, 'q) ngx \<Rightarrow> 'w os \<Rightarrow> endian \<Rightarrow> ('a, 'm, 'q, 'w) system \<Rightarrow> nat \<Rightarrow> ('a, 'm, 'q, 'w) system" where
  "solo N S e s 0 = s"
| "solo N S e s (Suc n) = solo_next N S e (solo N S e s n)"

context site_env
begin

lemma solo_step:
  assumes "sys_ok N ring map_ok S files xm hs s"
  shows "sys_step N S e xm (solo_event s) s (solo_next N S e s)"
proof (cases "\<exists>j. sy_jobs s 0 = Some j \<and> \<not> answered j")
  case True
  then obtain j where j: "sy_jobs s 0 = Some j" "\<not> answered j" by blast
  then obtain j' w' where "purge_turn N S e j (sy_world s) = Some (j', w')"
    using sys_turn_to [OF assms j(1)] by blast
  then show ?thesis using j sys_turn by (simp add: solo_event_def solo_next_def)
next
  case False
  have "sys_step N S e xm Stored s (s\<lparr>sy_world := (sy_world s)
      \<lparr>w_caches := w_caches (sy_world s), w_os := w_os (sy_world s)\<rparr>\<rparr>)"
    using assms by (intro sys_store) (auto simp: sys_ok_def world_in_def)
  then show ?thesis using False by (auto simp: solo_event_def solo_next_def split: option.split)
qed

lemma solo_path:
  assumes ok: "sys_ok N ring map_ok S files xm hs s"
  shows "\<exists>hs'. sys_path N S e xm s hs' (solo N S e s n)
    \<and> sys_ok N ring map_ok S files xm (hs' @ hs) (solo N S e s n) \<and> calm D 0 hs' (solo N S e s n)"
proof (induction n)
  case 0
  then show ?case using ok by (intro exI [of _ "[]"]) (simp add: path_start)
next
  case (Suc n)
  let ?s = "solo N S e s n"
  obtain hs' where hs': "sys_path N S e xm s hs' ?s"
    "sys_ok N ring map_ok S files xm (hs' @ hs) ?s" "calm D 0 hs' ?s" using Suc by blast
  have st: "sys_step N S e xm (solo_event ?s) ?s (solo N S e s (Suc n))"
    using solo_step [OF hs'(2)] by simp
  have "solo N S e s (Suc n) = ?s" if "solo_event ?s = Stored"
    using that by (auto simp: solo_event_def solo_next_def split: option.splits if_splits)
  moreover have "solo_event ?s \<noteq> Leave 0" by (simp add: solo_event_def split: option.split)
  ultimately have "calm D 0 ((solo_event ?s, ?s) # hs') (solo N S e s (Suc n))" using hs'(3) by auto
  then show ?case
    using path_step [OF hs'(1) st] sys_step_ok [OF hs'(2) st]
    by (intro exI [of _ "(solo_event ?s, ?s) # hs'"]) simp
qed

lemma solo_run:
  "sys_ok N ring map_ok S files xm hs s \<Longrightarrow>
   sys_run N S e xm (\<lambda>n. solo_event (solo N S e s n)) (solo N S e s)"
  unfolding sys_run_def using solo_path solo_step by (metis solo.simps(2))

lemma solo_scheduled: "scheduled (\<lambda>n. solo_event (solo N S e s n)) (solo N S e s) 0"
  by (auto simp: scheduled_def solo_event_def)

end

section \<open>A concrete run\<close>

definition empty_server :: "(cells, ref_map, dll, disk) system" where
  "empty_server = \<lparr>sy_jobs = Map.empty,
     sy_world = demo_world blank_zone\<rparr>"

definition busy_server :: "(cells, ref_map, dll, disk) system" where
  "busy_server = empty_server\<lparr>sy_jobs := [0 \<mapsto> Arrived demo_conf demo_request]\<rparr>"

definition demo_run :: "nat \<Rightarrow> (cells, ref_map, dll, disk) system" where
  "demo_run = solo ref_room disk_os Little busy_server"

lemma empty_server_initial: "initial_system empty_server"
  using demo_tree_ok
  by (auto simp: initial_system_def initial_world_def empty_server_def demo_world_def caches_ok_def
      demo_cache_def demo_path_def blank_zone_def)

lemma demo_arrives:
  "sys_step ref_room disk_os Little (Some demo_main) (Arrive 0 demo_conf demo_request)
     empty_server busy_server"
  using sys_arrive [of empty_server 0 demo_conf "Some demo_main"]
  by (simp add: empty_server_def busy_server_def demo_conf_def)

abbreviation demo_start :: "(event \<times> (cells, ref_map, dll, disk) system) list" where
  "demo_start \<equiv> [(Arrive 0 demo_conf demo_request, empty_server)]"

lemma busy_server_path:
  "sys_path ref_room disk_os Little (Some demo_main) empty_server demo_start busy_server"
  by (rule path_step [OF path_start demo_arrives])

lemma busy_server_ok:
  "sys_ok ref_room dll_ring ref_map_ok disk_os disk_files (Some demo_main) demo_start busy_server"
  by (rule site_env.path_ok [OF live.site_env_axioms busy_server_path empty_server_initial])

text \<open>The first turn places the index; nothing is recorded yet, and the file is there.\<close>

definition demo_ctx :: purge_ctx where
  "demo_ctx = \<lparr>cx_conf = demo_conf, cx_req = log_calls [DiscardRequestBody] demo_request,
     cx_tag = demo_tag, cx_cache = 1\<rparr>"

lemma demo_first:
  "purge_turn ref_room disk_os Little (Arrived demo_conf demo_request) (sy_world busy_server)
     = Some (Taking demo_ctx, demo_world demo_zone)"
proof -
  let ?w = "sy_world busy_server"
  have "purge_tag demo_request = Some demo_tag" "is_purge demo_request" "r_discard_rc demo_request = NGX_OK"
    "length demo_tag \<le> MAX_TAG_LEN"
    using demo_purge by (simp_all add: purge_request_def)
  moreover have "index_for ref_room demo_conf (w_zone ?w) = (True, demo_zone)"
    using demo_shared by (auto simp: index_for_def demo_conf_def demo_main_def busy_server_def
        empty_server_def demo_world_def)
  moreover have "file_cache (cache_zone demo_loc) ?w = Some (1, demo_cache)"
    "location_conf demo_conf = Some demo_loc" "?w\<lparr>w_zone := demo_zone\<rparr> = demo_world demo_zone"
    by (simp_all add: file_cache_def demo_loc_def demo_conf_def busy_server_def empty_server_def demo_world_def)
  ultimately show ?thesis
    by (simp add: arrive_turn_def discard_request_body_def demo_ctx_def)
qed

lemma demo_run_1:
  "demo_run (Suc 0) = \<lparr>sy_jobs = [0 \<mapsto> Taking demo_ctx], sy_world = demo_world demo_zone\<rparr>"
  using demo_first by (simp add: demo_run_def solo_next_def busy_server_def)

lemma demo_carries:
  "demo_file \<in> carrying_in disk_os disk_files (header demo_main) demo_path demo_tag (demo_run (Suc 0))"
  using demo_file_in_dir demo_entry [of "disk_files demo_disk"]
  by (simp add: carrying_in_def carrying_def demo_run_1 demo_world_def carries_def demo_main_def
      disk_files_def demo_disk_def)

lemma solo_add: "solo N S e s (n + k) = solo N S e (solo N S e s n) k"
  by (induction k) simp_all

lemma solo_job: "sy_jobs s 0 \<noteq> None \<Longrightarrow> sy_jobs (solo N S e s n) 0 \<noteq> None"
  by (induction n) (auto simp: solo_next_def split: option.split)

lemma demo_path_to:
  "\<exists>hs. sys_path ref_room disk_os Little (Some demo_main) empty_server (hs @ demo_start) (demo_run n)
    \<and> sys_ok ref_room dll_ring ref_map_ok disk_os disk_files (Some demo_main) (hs @ demo_start) (demo_run n)"
  using site_env.solo_path [OF live.site_env_axioms busy_server_ok, of Little n]
    path_append [OF _ busy_server_path] unfolding demo_run_def by blast

lemma demo_step:
  "sys_step ref_room disk_os Little (Some demo_main) (solo_event (demo_run n)) (demo_run n) (demo_run (Suc n))"
  using site_env.solo_run [OF live.site_env_axioms busy_server_ok, of Little]
  by (simp add: demo_run_def sys_run_def)

lemma demo_turn: "sys_step ref_room disk_os Little (Some demo_main) (Turn 0) (demo_run (Suc 0)) (demo_run 2)"
  using demo_step [of "Suc 0"] by (simp add: demo_run_1 solo_event_def numeral_2_eq_2)

text \<open>The worker answers, and its run from the taking of the tag is calm.\<close>

lemma demo_rest:
  "\<exists>k hs2 j. sys_path ref_room disk_os Little (Some demo_main) (demo_run 2) hs2 (demo_run (2 + k))
    \<and> calm D 0 hs2 (demo_run (2 + k)) \<and> sy_jobs (demo_run (2 + k)) 0 = Some j \<and> answered j"
proof -
  obtain j2 where "sy_jobs (demo_run 2) 0 = Some j2"
    using solo_job [of busy_server] by (fastforce simp: demo_run_def busy_server_def)
  then obtain m rc r where m: "m \<ge> 2" "sy_jobs (demo_run m) 0 = Some (Answered rc r)"
    using run_answers [OF site_env.solo_run [OF live.site_env_axioms busy_server_ok, of Little]
        site_env.solo_scheduled [OF live.site_env_axioms]] unfolding demo_run_def by blast
  obtain hs where ok: "sys_ok ref_room dll_ring ref_map_ok disk_os disk_files (Some demo_main) hs (demo_run 2)"
    using demo_path_to by blast
  have "demo_run m = solo ref_room disk_os Little (demo_run 2) (m - 2)"
    using m(1) solo_add [of ref_room disk_os Little busy_server 2 "m - 2"]
    unfolding demo_run_def le_add_diff_inverse [OF m(1)] by simp
  then obtain hs2 where "sys_path ref_room disk_os Little (Some demo_main) (demo_run 2) hs2 (demo_run m)"
    "calm D 0 hs2 (demo_run m)"
    using site_env.solo_path [OF live.site_env_axioms ok, of Little "m - 2" D] by auto
  then show ?thesis
    using m(2) by (intro exI [of _ "m - 2"] exI [of _ hs2] exI [of _ "Answered rc r"])
      (simp only: le_add_diff_inverse [OF m(1)] answered.simps simp_thms)
qed

lemma demo_taking:
  "sy_jobs (demo_run (Suc 0)) 0 = Some (Taking demo_ctx)" "fallback_on demo_ctx"
  "cache_dir (sy_world (demo_run (Suc 0))) (cx_cache demo_ctx) demo_path"
  "zone_rel ref_room dll_ring ref_map_ok (w_zone (sy_world (demo_run (Suc 0)))) []"
  "cx_tag demo_ctx = demo_tag"
  using demo_zone_rel demo_path_ok
  by (simp_all add: demo_run_1 fallback_on_def demo_ctx_def demo_conf_def demo_loc_def cache_dir_def demo_world_def)

text \<open>Some turn of the run removes the file.\<close>

lemma demo_removal:
  "\<exists>n. sys_step ref_room disk_os Little (Some demo_main) (Turn 0) (demo_run n) (demo_run (Suc n))
    \<and> disk_files (w_os (sy_world (demo_run (Suc n)))) demo_file
        \<noteq> disk_files (w_os (sy_world (demo_run n))) demo_file"
proof -
  let ?D = "carrying_in disk_os disk_files (header demo_main) demo_path demo_tag"
  obtain hs where hs: "sys_path ref_room disk_os Little (Some demo_main) empty_server hs (demo_run (Suc 0))"
    using demo_path_to by blast
  obtain k hs2 j where k: "sys_path ref_room disk_os Little (Some demo_main) (demo_run 2) hs2 (demo_run (2 + k))"
    "calm ?D 0 hs2 (demo_run (2 + k))" "sy_jobs (demo_run (2 + k)) 0 = Some j" "answered j"
    using demo_rest by blast
  have "purged_clean disk_os (header demo_main) demo_path
      (disk_files (w_os (sy_world (demo_run (2 + k))))) demo_tag"
    using site_live.path_purge_complete [OF live.site_live_axioms hs empty_server_initial refl
        demo_taking(1-4) _ demo_turn k(1) _ k(3,4)] k(2) demo_taking(5) by simp
  then have late: "demo_file \<notin> ?D (demo_run (2 + k))" by (simp add: purged_clean_carrying carrying_in_def)
  have "\<exists>n. P n \<and> \<not> P (Suc n)" if "P (Suc 0)" "\<not> P (2 + k)" for P :: "nat \<Rightarrow> bool"
    using that by (induction k) (auto simp: numeral_2_eq_2)
  from this [of "\<lambda>n. demo_file \<in> ?D (demo_run n)", OF demo_carries late]
  obtain n where n: "demo_file \<in> ?D (demo_run n)" "demo_file \<notin> ?D (demo_run (Suc n))"
    by (elim exE conjE)
  then have "disk_files (w_os (sy_world (demo_run (Suc n)))) demo_file
        \<noteq> disk_files (w_os (sy_world (demo_run n))) demo_file"
    using carries_cong [of "disk_files (w_os (sy_world (demo_run (Suc n))))" demo_file
        "disk_files (w_os (sy_world (demo_run n)))" disk_os MAX_HEADER_BLOCK "header demo_main" demo_tag]
    by (auto simp: carrying_in_def carrying_def)
  moreover from this have "solo_event (demo_run n) = Turn 0"
    by (auto simp: demo_run_def solo_event_def solo_next_def split: option.splits)
  ultimately show ?thesis using demo_step [of n] by auto
qed

section \<open>Properties\<close>

text \<open>C1: On every path of the system, whatever the interleaving of purges, recordings, reports and
  NGINX's own changes, the invariant holds, no worker's next section faults, and recording does
  not fault.\<close>

theorem workers_never_fault:
  assumes "site_env N ring map_ok S files dirs" "initial_system s0" "sys_path N S e xm s0 hs s"
  shows "(\<exists>L. world_ok N ring map_ok (sy_world s) L)
    \<and> (\<forall>j\<in>ran (sy_jobs s). purge_turn N S e j (sy_world s) \<noteq> None)
    \<and> (\<forall>conf r. record_response N conf r (w_zone (sy_world s)) \<noteq> None)"
proof -
  note ok = site_env.path_ok [OF assms(1,3,2)]
  obtain L where w: "world_in N ring map_ok (evidence S files xm hs) (sy_world s) L"
    using ok by (auto simp: sys_ok_def)
  then have "world_ok N ring map_ok (sy_world s) L"
    using ok by (auto simp: world_in_def world_ok_def pairs_ok_def sys_ok_def)
  moreover have "purge_turn N S e j (sy_world s) \<noteq> None" if "j \<in> ran (sy_jobs s)" for j
    using that site_env.path_turn [OF assms(1,3,2)] by (auto simp: ran_def)
  moreover have "record_response N conf r (w_zone (sy_world s)) \<noteq> None" for conf r
    using w ngx_env.record_pairs [OF site_env.axioms(1) [OF assms(1)], where z = "w_zone (sy_world s)" and L = L and conf = conf and r = r]
    by (auto simp: world_in_def)
  ultimately show ?thesis by blast
qed

theorem workers_never_fault_witness:
  "purge_turn ref_room disk_os Little (Arrived demo_conf demo_request) (sy_world busy_server) \<noteq> None"
  using workers_never_fault [OF live.site_env_axioms empty_server_initial busy_server_path]
  by (simp add: busy_server_def ran_def del: purge_turn.simps)

text \<open>C5: A worker's turn makes and changes no file. When it removes one, a request that reached
  this worker named a tag, and the path gives evidence that the file's key had that tag: a
  response was recorded with both, or a cache file named by the key carried the tag.\<close>

theorem worker_removes_with_cause:
  assumes "site_env N ring map_ok S files dirs" "initial_system s0" "sys_path N S e xm s0 hs s"
    and "sys_step N S e xm (Turn i) s s'"
    and "files (w_os (sy_world s')) x \<noteq> files (w_os (sy_world s)) x"
  shows "files (w_os (sy_world s')) x = None
    \<and> (\<exists>conf r t k. arrived hs i conf r \<and> purge_request r t \<and> key_from_path x = Some k
        \<and> (t, k) \<in> evidence S files xm ((Turn i, s) # hs))"
  using assms by (intro site_env.path_removes)

theorem worker_removes_with_cause_witness:
  "\<exists>n hs. disk_files (w_os (sy_world (demo_run (Suc n)))) demo_file = None
    \<and> (\<exists>conf r t k. arrived hs 0 conf r \<and> purge_request r t \<and> key_from_path demo_file = Some k
        \<and> (t, k) \<in> evidence disk_os disk_files (Some demo_main) ((Turn 0, demo_run n) # hs))"
proof -
  obtain n where n: "sys_step ref_room disk_os Little (Some demo_main) (Turn 0) (demo_run n) (demo_run (Suc n))"
    "disk_files (w_os (sy_world (demo_run (Suc n)))) demo_file
       \<noteq> disk_files (w_os (sy_world (demo_run n))) demo_file"
    using demo_removal by blast
  obtain hs where "sys_path ref_room disk_os Little (Some demo_main) empty_server hs (demo_run n)"
    using demo_path_to by blast
  then show ?thesis
    using worker_removes_with_cause [OF live.site_env_axioms empty_server_initial _ n] by blast
qed

text \<open>C6: In every run of the system, a worker that is not left waiting for good answers the purge it
  has under way, whatever the others do between its turns.\<close>

theorem scheduled_worker_answers:
  assumes "sys_run N S e xm ev \<sigma>" "scheduled ev \<sigma> i" "sy_jobs (\<sigma> n) i = Some j"
  shows "\<exists>m\<ge>n. \<exists>rc r. sy_jobs (\<sigma> m) i = Some (Answered rc r)"
  using assms by (rule run_answers)

theorem scheduled_worker_answers_witness:
  "\<exists>m\<ge>0. \<exists>rc r. sy_jobs (demo_run m) 0 = Some (Answered rc r)"
proof -
  let ?ev = "\<lambda>n. solo_event (demo_run n)"
  have "sys_run ref_room disk_os Little (Some demo_main) ?ev demo_run"
    unfolding demo_run_def by (rule site_env.solo_run [OF live.site_env_axioms busy_server_ok])
  moreover have "scheduled ?ev demo_run 0"
    unfolding demo_run_def by (rule site_env.solo_scheduled [OF live.site_env_axioms])
  moreover have "sy_jobs (demo_run 0) 0 = Some (Arrived demo_conf demo_request)"
    by (simp add: demo_run_def busy_server_def)
  ultimately show ?thesis by (rule scheduled_worker_answers)
qed

text \<open>C2: With the fallback on, a purge is complete among other workers. When no call of the operating
  system fails, the cache has a directory, and the index knew the tag's files or had no entry for
  it when the purge took the tag, no file that carries the tag is left when the worker has
  answered, provided NGINX stored no new one meanwhile; other workers may purge, scan, record and
  evict as they like. With the fallback off a purge whose tag the index does not have does not
  scan, and nothing is claimed of it here.\<close>

theorem worker_purge_complete:
  assumes "site_live N ring map_ok S files dirs"
    and "sys_path N S e xm s0 hs s" "initial_system s0" "xm = Some xmcf"
    and "sy_jobs s i = Some (Taking c)" "fallback_on c" "cache_dir (sy_world s) (cx_cache c) p"
    and "zone_rel N ring map_ok (w_zone (sy_world s)) L"
    and "map_of L (cx_tag c) = None
      \<or> index_covers S dirs (header xmcf) p (files (w_os (sy_world s))) (cx_tag c) L"
    and "sys_step N S e xm (Turn i) s s1"
    and "sys_path N S e xm s1 hs2 s2" "calm (carrying_in S files (header xmcf) p (cx_tag c)) i hs2 s2"
    and "sy_jobs s2 i = Some j" "answered j"
  shows "purged_clean S (header xmcf) p (files (w_os (sy_world s2))) (cx_tag c)"
  using assms by (intro site_live.path_purge_complete)

theorem worker_purge_complete_witness:
  "\<exists>k. purged_clean disk_os (header demo_main) demo_path
     (disk_files (w_os (sy_world (demo_run (2 + k))))) demo_tag"
proof -
  obtain hs where hs: "sys_path ref_room disk_os Little (Some demo_main) empty_server hs (demo_run (Suc 0))"
    using demo_path_to by blast
  obtain k hs2 j where k: "sys_path ref_room disk_os Little (Some demo_main) (demo_run 2) hs2 (demo_run (2 + k))"
    "calm (carrying_in disk_os disk_files (header demo_main) demo_path demo_tag) 0 hs2 (demo_run (2 + k))"
    "sy_jobs (demo_run (2 + k)) 0 = Some j" "answered j"
    using demo_rest by blast
  show ?thesis
    using worker_purge_complete [OF live.site_live_axioms hs empty_server_initial refl
        demo_taking(1-4) _ demo_turn k(1) _ k(3,4)] k(2) demo_taking(5) by auto
qed

text \<open>C7: The sections of a purge, run one after the other, are the handler: a worker that nobody
  interrupts gives the handler's answer and leaves the handler's world, faults included.\<close>

theorem sections_make_handler:
  "\<exists>n. turns N S e n (Some (Arrived conf r, w)) = answer_turn (purge_handler N S e conf r w)"
  using alone_purge_handler unfolding ends_def by blast

end
