(* ===== verification/Spec2Isabelle.thy ===== *)
theory Spec2Isabelle
  imports Core_Properties Core_Tests Index_Properties Setup_Properties Scan_Rebuild Worker_Properties
begin

text \<open>
  A verification of \<open>ngx_xkey\<close>, an NGINX module that purges cache entries by tag.

  \<^bold>\<open>The program.\<close> A response on its way into the cache carries a header that lists tags. The
  header filter (\<open>src/record.rs\<close>) records the response's cache key under each tag in a tag index
  in shared memory (\<open>src/index.rs\<close>). A \<open>PURGE\<close> request names a tag (\<open>src/purge.rs\<close>): the handler
  takes the tag's keys from the index, clears each entry in the cache rbtree and unlinks its
  file; when the index has nothing it scans the cache directory (\<open>src/scan.rs\<close>), reads the
  header block NGINX stored in each file, removes the files that carry the tag and writes the
  tags of the others back into the index. A status endpoint (\<open>src/status.rs\<close>) reports the
  index's counters; \<open>src/lib.rs\<close> holds configuration and directives, \<open>xkey-core/src/lib.rs\<close> the
  pure functions.

  \<^bold>\<open>The theories\<close>, in the order they build on each other:
  \<^item> \<open>Xkey_Prelude\<close>: bytes, words, the functions of Rust's standard library on byte slices;
  \<^item> \<open>Xkey_Text\<close>, \<open>Xkey_Hex\<close>, \<open>Xkey_Key\<close>: the functions of \<open>xkey-core\<close>: \<open>split_tags\<close>,
    \<open>find_header\<close>, \<open>trim\<close>; \<open>hex_encode\<close>, \<open>hex_decode\<close>, \<open>format_usize\<close>; \<open>node_key\<close>,
    \<open>node_key_rest\<close>, with round trips and reference functions;
  \<^item> \<open>Ngx_Containers\<close>: the slab allocator, string, vector, map and queue of the \<open>ngx\<close> crate and
    of NGINX as parameters, their laws as the locales \<open>queue_env\<close>, \<open>map_env\<close>, \<open>vec_env\<close>, joined
    in \<open>ngx_env\<close>; \<open>Ngx_Reference\<close> is a concrete provider with a doubly linked ring;
  \<^item> \<open>Tag_Index\<close>: \<open>TagIndex\<close> with every operation; \<open>Lru_Spec\<close>: what it promises, a list of tags,
    most recently used first; \<open>Tag_Index_Refine\<close>: the invariant \<open>index_ok\<close> and the refinement of
    each operation to the list;
  \<^item> \<open>Index_Zone\<close>: \<open>shared\<close> and the locked operations, the interface \<open>tag_store\<close> that the other
    parts use; \<open>Index_Room\<close>: the same while no allocation fails;
  \<^item> \<open>Cache_Tree\<close>: \<open>invalidate\<close> on NGINX's rbtree, as a walk over addresses that ends and finds
    exactly the sought key on an ordered tree;
  \<^item> \<open>Ngx_Http\<close>: requests with a log of the calls made on them, the operating system as
    parameters with the laws \<open>posix\<close> (calls may fail) and \<open>posix_live\<close> (they succeed), and a
    concrete disk;
  \<^item> \<open>Core_Tests\<close>: the unit tests of \<open>xkey-core\<close>, as truth values over the model;
  \<^item> \<open>Module_Conf\<close>, \<open>Module_Commands\<close>: configuration records, merge, the directives' handlers and
    the table that leads to them (locale \<open>conf_laws\<close>);
  \<^item> \<open>Module_Setup\<close>: the module's descriptor with its callbacks, and the reading of a whole
    configuration, block by block, in any order NGINX may use; \<open>Setup_Correct\<close>: every accepted
    configuration is well typed (locale \<open>setup_laws\<close>); \<open>Setup_Merge\<close>: the merged flags against a
    reference, and that merging always ends; \<open>Setup_Properties\<close>: the properties, and the server
    that a configuration gives;
  \<^item> \<open>Record_Filter\<close>; \<open>Scan\<close> and \<open>Scan_Correct\<close>; \<open>Purge\<close>, \<open>Purge_Correct\<close>, \<open>Purge_Answers\<close> and
    \<open>Purge_Complete\<close>; \<open>Status_Report\<close>: the handlers and their correctness; \<open>site_env\<close> and
    \<open>site_live\<close> join the container and operating system interfaces; \<open>Scan_Rebuild\<close>: what a scan
    leaves in the index, and the purge after it;
  \<^item> \<open>Module_System\<close>: the module's steps interleaved with NGINX's own, the invariant \<open>world_ok\<close>
    of reachable worlds and the absence of faults;
  \<^item> \<open>Worker_Turns\<close>: the purge handler split at its locks and file operations, a job and its
    turns, and their agreement with \<open>purge_handler\<close>; \<open>Worker_System\<close>: several workers and NGINX
    interleaved, the events of a path, what is known of a job; \<open>Worker_Safety\<close>: every turn and
    every step keeps that, no turn faults, removals have a cause; \<open>Worker_Progress\<close>: turns lead
    to the answer, and a purge is complete among the others' steps (rely and guarantee);
  \<^item> \<open>Reference_World\<close>: a small server on which the witnesses evaluate; \<open>Core_Properties\<close>,
    \<open>Index_Properties\<close>, \<open>Worker_Properties\<close> and this theory: the properties.

  \<^bold>\<open>State.\<close> A \<open>world\<close> holds the index zone, the file caches by zone number and the operating
  system's state; a \<open>system\<close> adds each worker's job. An operation of the unsafe code gives an
  option: None is a read through a link, slot or node pointer that leads nowhere, a walk that
  does not end, or a panic. Failing allocations and system calls are results, not faults.

  \<^bold>\<open>Bounds.\<close> No fuel is used: the loops of the source recurse on data or, for \<open>hex_decode\<close>, by a
  measure; the tree walk is a \<open>partial_function\<close> whose result is proved; \<open>insert_attempts\<close>
  counts down from \<open>EVICT_ATTEMPTS\<close> as the source does. \<open>usize\<close> has 64 bits; lengths and
  offsets of slices are natural numbers, since a slice's length never overflows.

  \<^bold>\<open>Granularity.\<close> The read-write lock of the index and the mutex of the cache make each call of
  an index operation and each \<open>invalidate\<close> atomic. In \<open>Module_System\<close> a whole request is one
  step; in \<open>Worker_System\<close> a purge is one step per critical section, per file read and per file
  unlinked, and a step of any other worker or of NGINX may come between two of them. Recording a
  response and reporting the status hold one lock once, so they are one step in both. Reading a
  file is one step because a cache file is replaced by renaming, never rewritten: an open
  descriptor sees one content. The names of a walk are the ones at its start; a file that
  appears later is not visited. The main configuration is the same for all
  requests. Locks are fair: a worker that is scheduled gets its turn; \<open>scheduled\<close> says so, and
  only \<open>scheduled_worker_answers\<close> needs it.

  \<^bold>\<open>Configuration.\<close> \<open>issues\<close> says what NGINX may do next while it reads a configuration: create a
  block's configuration before its directives, merge a block after the one around it and once,
  call \<open>postconfiguration\<close> last. It leaves the rest of the order open, so that the results do
  not depend on how NGINX walks its blocks. A configuration whose memory NGINX cannot allocate
  ends before the module is called.

  \<^bold>\<open>Stored headers.\<close> NGINX stores a response's header lines as the upstream sent them.
  \<open>raw_block\<close> is such a block with any spelling of its lines, \<open>header_block\<close> the usual one, a
  space after the colon and CRLF at the end; both are inputs of theorems about \<open>find_header\<close> and
  model no code. \<open>header_lookup\<close> is the header that the recorder finds in NGINX's parsed list.

  \<^bold>\<open>Not modelled:\<close> the symbols exported to NGINX's loader (\<open>ngx_modules!\<close>, the linkage
  attributes), the build files, the integration script (it drives a real server), log
  messages, and everything outside the repository, which appears as parameters: the \<open>ngx\<close>
  crate, NGINX, libc, the layout of NGINX's cache file header.
\<close>

section \<open>The system\<close>

text \<open>In every world a worker can reach, from an unplaced index over well-formed caches and
  through any interleaving of placing the index, recording responses, purging, reporting and of
  NGINX's own changes of caches and files, the invariant holds and neither recording nor
  purging faults: no dangling link, no dangling tree node, no endless walk, no panic.\<close>

lemma reachable_never_faults:
  assumes "site_env N ring map_ok S files dirs" "initial_world w0" "reachable N S e w0 w"
  shows "(\<exists>L. world_ok N ring map_ok w L)
    \<and> purge_handler N S e conf r w \<noteq> None
    \<and> record_response N conf r (w_zone w) \<noteq> None"
proof -
  obtain L where ok: "world_ok N ring map_ok w L"
    using site_env.reachable_ok [OF assms(1) assms(3,2)] by blast
  then have "record_response N conf r (w_zone w) \<noteq> None"
    using ngx_env.record_pairs [OF site_env.axioms(1) [OF assms(1)],
        where z = "w_zone w" and L = L and conf = conf and r = r] by (auto simp: world_ok_def)
  then show ?thesis using ok site_env.purge_state [OF assms(1) ok, of e conf r] by auto
qed

definition fresh_world :: "(cells, ref_map, dll, disk) world" where
  "fresh_world = demo_world \<lparr>z_slab = Some 9, z_data = None, z_log_nomem = True\<rparr>"

lemma fresh_world_initial: "initial_world fresh_world"
  using demo_tree_ok
  by (auto simp: initial_world_def fresh_world_def demo_world_def caches_ok_def demo_cache_def
      demo_path_def)

text \<open>C15: A step of the module keeps the invariant, and removes cache files at most: it never makes
  one or changes what one holds.\<close>

theorem module_step_keeps_invariant:
  assumes "site_env N ring map_ok S files dirs" "module_step N S e w w'" "world_ok N ring map_ok w L"
  shows "(\<exists>L'. world_ok N ring map_ok w' L')
    \<and> (\<forall>x. files (w_os w') x = files (w_os w) x \<or> files (w_os w') x = None)"
  using assms by (rule site_env.module_step_ok)

theorem module_step_keeps_invariant_witness:
  "\<exists>L'. world_ok ref_room dll_ring ref_map_ok
     (fresh_world\<lparr>w_zone := snd (zone_init ref_room (w_zone fresh_world))\<rparr>) L'"
proof -
  have "world_ok ref_room dll_ring ref_map_ok fresh_world []"
    using fresh_world_initial by (simp add: initial_world_def world_ok_def zone_state_def)
  moreover have "module_step ref_room disk_os Little fresh_world
     (fresh_world\<lparr>w_zone := snd (zone_init ref_room (w_zone fresh_world))\<rparr>)"
    by (rule step_init) (rule prod.collapse [symmetric])
  ultimately show ?thesis using module_step_keeps_invariant [OF live.site_env_axioms] by blast
qed

section \<open>Purging\<close>

text \<open>C4: When no system call fails, the fallback is on and the index either knows every file of
  the cache directory that carries the tag or has no entry for it, no such file is left after
  a purge.\<close>

theorem purge_leaves_no_file:
  assumes "site_live N ring map_ok S files dirs"
    and "purge_request r tag" "purge_setup conf w xmcf xlcf i fc" "cache_at fc p"
    and "zone_rel N ring map_ok (w_zone w) L" "cache_ok (fc_tree fc) t" "fallback xlcf \<noteq> 0"
    and "\<forall>(t, k)\<in>lru_pairs L. key_ok k"
    and "map_of L tag = None \<or> index_covers S dirs (header xmcf) p (files (w_os w)) tag L"
  shows "\<exists>ans w'. purge_handler N S e conf r w = Some (ans, w')
    \<and> purged_clean S (header xmcf) p (files (w_os w')) tag"
  using assms by (rule site_live.purge_complete)

theorem purge_leaves_no_file_witness:
  "carries disk_os MAX_HEADER_BLOCK (bytes_of ''xkey'') (disk_files demo_disk) demo_tag demo_file
   \<and> (\<exists>ans w'. purge_handler ref_room disk_os Little demo_conf demo_request (demo_world demo_zone) = Some (ans, w')
        \<and> purged_clean disk_os (bytes_of ''xkey'') demo_path (disk_files (w_os w')) demo_tag)"
proof -
  have "disk_files demo_disk demo_file = Some demo_content" by (simp add: disk_files_def demo_disk_def)
  then have "carries disk_os MAX_HEADER_BLOCK (bytes_of ''xkey'') (disk_files demo_disk) demo_tag demo_file"
    unfolding carries_def by (subst demo_entry) simp_all
  moreover have "fallback demo_loc \<noteq> 0" "cache_ok (fc_tree demo_cache) (Node Leaf 1 Leaf)"
    "zone_rel ref_room dll_ring ref_map_ok (w_zone (demo_world demo_zone)) []"
    "header demo_main = bytes_of ''xkey''"
    using demo_tree_ok demo_zone_rel
    by (simp_all add: demo_loc_def demo_cache_def demo_world_def demo_main_def)
  ultimately show ?thesis
    using purge_leaves_no_file [OF live.site_live_axioms demo_purge demo_setup demo_path_ok,
        of demo_zone "[]" "Node Leaf 1 Leaf" Little] by simp
qed

text \<open>C9: A tag the index has is purged from the index alone: exactly the live nodes and the
  files of its keys go, the tag leaves the index, and the answer is a 204 that names the source
  and counts the keys that had a node or a file.\<close>

theorem purge_indexed:
  assumes "site_live N ring map_ok S files dirs"
    and "purge_request r tag" "purge_setup conf w xmcf xlcf i fc" "cache_at fc p"
    and "zone_rel N ring map_ok (w_zone w) L" "cache_ok (fc_tree fc) t"
    and "map_of L tag = Some ks" "\<forall>k\<in>set ks. key_ok k"
  shows "\<exists>w' fc'. purge_handler N S e conf r w =
      Some ((send_result r, log_calls ([DiscardRequestBody]
          @ report_calls (bytes_of ''index'')
              (of_nat (length (filter (\<lambda>k. nkey_of e k \<in> live_keys (fc_tree fc) t
                 \<or> files (w_os w) (cache_file dirs p k) \<noteq> None) ks)))
              None (zone_pressure (w_zone w)) @ no_content_calls) r), w')
    \<and> zone_rel N ring map_ok (w_zone w') (lru_remove tag L)
    \<and> w_caches w' = (w_caches w)(i \<mapsto> fc') \<and> cache_at fc' p \<and> cache_ok (fc_tree fc') t
    \<and> live_keys (fc_tree fc') t = live_keys (fc_tree fc) t - nkey_of e ` set ks
    \<and> files (w_os w') =
        (\<lambda>x. if x \<in> cache_file dirs p ` set ks then None else files (w_os w) x)"
  using assms by (rule site_live.purge_hit_exact)

theorem purge_indexed_witness:
  "\<exists>ans w' fc'. purge_handler ref_room disk_os Little demo_conf demo_request (demo_world tagged_zone) = Some (ans, w')
    \<and> zone_rel ref_room dll_ring ref_map_ok (w_zone w') []
    \<and> w_caches w' = [1 \<mapsto> fc'] \<and> live_keys (fc_tree fc') (Node Leaf 1 Leaf) = {}
    \<and> disk_files (w_os w') demo_file = None"
proof -
  have "cache_ok (fc_tree demo_cache) (Node Leaf 1 Leaf)"
    "live_keys (fc_tree demo_cache) (Node Leaf 1 Leaf) = {nkey_of Little (demo_key 1)}"
    "zone_rel ref_room dll_ring ref_map_ok (w_zone (demo_world tagged_zone)) [(demo_tag, [demo_key 1])]"
    using demo_tree_ok demo_tree_live tagged_zone_rel by (simp_all add: demo_cache_def demo_world_def)
  then show ?thesis
    using purge_indexed [OF live.site_live_axioms demo_purge demo_setup demo_path_ok,
        of tagged_zone "[(demo_tag, [demo_key 1])]" "Node Leaf 1 Leaf" "[demo_key 1]" Little]
    by (force simp: lru_remove_def demo_world_def demo_file_def)
qed

text \<open>C10: With the fallback on and no call of the operating system failing, a tag the index does not
  have is purged by a scan that meets every file of the cache directory: exactly the files that
  carry the tag are removed, their live nodes cleared, the tags of the others can only be written
  back under their own key, and the answer reports the files met and purged; it is 404 when none
  was.\<close>

theorem purge_scanned:
  assumes "site_live N ring map_ok S files dirs"
    and "purge_request r tag" "purge_setup conf w xmcf xlcf i fc" "cache_at fc p"
    and "zone_rel N ring map_ok (w_zone w) L" "cache_ok (fc_tree fc) t"
    and "map_of L tag = None" "fallback xlcf \<noteq> 0"
  shows "\<exists>ns sc w' fc' L'. distinct ns
    \<and> (\<forall>x. files (w_os w) x \<noteq> None \<longrightarrow> in_dir (p_name p) x \<longrightarrow> x \<in> set ns)
    \<and> purge_handler N S e conf r w =
        Some (scan_answer sc (zone_pressure (w_zone w')) (log_calls [DiscardRequestBody] r), w')
    \<and> sc_scanned sc = of_nat (length ns)
    \<and> sc_purged sc = of_nat (length (filter
         (carries S MAX_HEADER_BLOCK (header xmcf) (files (w_os w)) tag) ns))
    \<and> zone_rel N ring map_ok (w_zone w') L'
    \<and> w_caches w' = (w_caches w)(i \<mapsto> fc') \<and> cache_at fc' p \<and> cache_ok (fc_tree fc') t
    \<and> scan_exact e (entry_at S MAX_HEADER_BLOCK (header xmcf) (files (w_os w))) tag ns
        (files (w_os w), live_keys (fc_tree fc) t, lru_pairs L)
        (files (w_os w'), live_keys (fc_tree fc') t, lru_pairs L')"
  using assms by (rule site_live.purge_scan_exact)

theorem purge_scanned_witness:
  "\<exists>sc w' pr. purge_handler ref_room disk_os Little demo_conf demo_request (demo_world demo_zone) =
     Some (scan_answer sc pr (log_calls [DiscardRequestBody] demo_request), w')
   \<and> (\<exists>ns. demo_file \<in> set ns \<and> sc_scanned sc = of_nat (length ns))"
proof -
  have "cache_ok (fc_tree demo_cache) (Node Leaf 1 Leaf)" "fallback demo_loc \<noteq> 0" "map_of [] demo_tag = None"
    "zone_rel ref_room dll_ring ref_map_ok (w_zone (demo_world demo_zone)) []"
    "disk_files (w_os (demo_world demo_zone)) demo_file \<noteq> None"
    using demo_tree_ok demo_zone_rel
    by (simp_all add: demo_cache_def demo_world_def demo_loc_def disk_files_def demo_disk_def)
  then show ?thesis
    using purge_scanned [OF live.site_live_axioms demo_purge demo_setup demo_path_ok,
        of demo_zone "[]" "Node Leaf 1 Leaf" Little] demo_file_in_dir by blast
qed

text \<open>C18: Whatever system calls fail, a purge answered from the index removes no file but those of
  the tag's keys, clears exactly their nodes and takes the tag out of the index.\<close>

theorem purge_indexed_removes_only:
  assumes "site_env N ring map_ok S files dirs"
    and "purge_request r tag" "purge_setup conf w xmcf xlcf i fc" "cache_at fc p"
    and "zone_rel N ring map_ok (w_zone w) L" "cache_ok (fc_tree fc) t"
    and "map_of L tag = Some ks" "\<forall>k\<in>set ks. key_ok k"
  shows "\<exists>n w' fc'. purge_handler N S e conf r w =
      Some ((send_result r, log_calls ([DiscardRequestBody]
          @ report_calls (bytes_of ''index'') n None (zone_pressure (w_zone w)) @ no_content_calls) r), w')
    \<and> zone_rel N ring map_ok (w_zone w') (lru_remove tag L)
    \<and> w_caches w' = (w_caches w)(i \<mapsto> fc') \<and> cache_at fc' p \<and> cache_ok (fc_tree fc') t
    \<and> live_keys (fc_tree fc') t = live_keys (fc_tree fc) t - nkey_of e ` set ks
    \<and> (\<forall>x. files (w_os w') x = files (w_os w) x
          \<or> files (w_os w') x = None \<and> x \<in> cache_file dirs p ` set ks)"
  using assms by (rule site_env.purge_hit_sound)

theorem purge_indexed_removes_only_witness:
  "\<exists>ans w'. purge_handler ref_room disk_os Little demo_conf demo_request (demo_world tagged_zone) = Some (ans, w')
    \<and> (\<forall>x. x \<noteq> demo_file \<longrightarrow> disk_files (w_os w') x = disk_files demo_disk x)"
proof -
  have "cache_ok (fc_tree demo_cache) (Node Leaf 1 Leaf)"
    "zone_rel ref_room dll_ring ref_map_ok (w_zone (demo_world tagged_zone)) [(demo_tag, [demo_key 1])]"
    using demo_tree_ok tagged_zone_rel by (simp_all add: demo_cache_def demo_world_def)
  then show ?thesis
    using purge_indexed_removes_only [OF live.site_env_axioms demo_purge demo_setup demo_path_ok,
        of tagged_zone "[(demo_tag, [demo_key 1])]" "Node Leaf 1 Leaf" "[demo_key 1]" Little]
    by (force simp: demo_world_def demo_file_def)
qed

text \<open>C32: The header filter records a response before its file is stored, and a purge in between
  takes the tag's keys with it. If the file is then stored, and another response with the tag is
  recorded, a later purge for the tag is answered from the index and leaves the file that
  carries the tag: it was purged, reappeared and is no longer known.\<close>

theorem purge_before_store_loses_tag:
  assumes "site_live N ring map_ok S files dirs" "ngx_room N ring map_ok"
    and "zone_rel N ring map_ok (w_zone w) L" "\<forall>(t, k)\<in>lru_pairs L. key_ok k"
    and "response_tags conf0 r0 = Some (key, tags)" "key_ok key" "tag \<in> set tags" "tag_accepted tag"
    and "purge_request r tag" "purge_setup conf w xmcf xlcf i fc" "cache_at fc p"
    and "cache_ok (fc_tree fc) t"
    and "response_tags conf1 r1 = Some (key1, tags1)" "key_ok key1" "tag \<in> set tags1" "key1 \<noteq> key"
  shows "\<exists>z1 ans1 w1 z2. record_response N conf0 r0 (w_zone w) = Some z1
    \<and> purge_handler N S e conf r (w\<lparr>w_zone := z1\<rparr>) = Some (ans1, w1)
    \<and> files (w_os w1) (cache_file dirs p key) = None
    \<and> record_response N conf1 r1 (w_zone w1) = Some z2
    \<and> (\<forall>w2 fc2 t2. w_zone w2 = z2 \<and> purge_setup conf w2 xmcf xlcf i fc2 \<and> cache_at fc2 p
          \<and> cache_ok (fc_tree fc2) t2
          \<and> carries S MAX_HEADER_BLOCK (header xmcf) (files (w_os w2)) tag (cache_file dirs p key) \<longrightarrow>
        (\<exists>ans3 w3. purge_handler N S e conf r w2 = Some (ans3, w3)
          \<and> carries S MAX_HEADER_BLOCK (header xmcf) (files (w_os w3)) tag (cache_file dirs p key)))"
proof -
  obtain z1 ks where r1: "record_response N conf0 r0 (w_zone w) = Some z1"
    "zone_rel N ring map_ok z1 (lru_record_all key tags L)"
    "map_of (lru_record_all key tags L) tag = Some ks" "key \<in> set ks" "\<forall>k\<in>set ks. key_ok k"
    "\<forall>(t, k)\<in>lru_pairs (lru_record_all key tags L). key_ok k"
    by (rule recorded_view [OF assms(2-8)])
  let ?w = "w\<lparr>w_zone := z1\<rparr>" and ?L = "lru_remove tag (lru_record_all key tags L)"
  have set: "purge_setup conf ?w xmcf xlcf i fc" using assms(10) by (simp add: purge_setup_def)
  have rel: "zone_rel N ring map_ok (w_zone ?w) (lru_record_all key tags L)" using r1(2) by simp
  obtain ans1 w1 where w1: "purge_handler N S e conf r ?w = Some (ans1, w1)"
    "zone_rel N ring map_ok (w_zone w1) ?L" "files (w_os w1) (cache_file dirs p key) = None"
    using site_live.purge_hit_exact [OF assms(1,9) set assms(11) rel assms(12) r1(3,5), of e] r1(4)
    by fastforce
  have ok: "\<forall>(t, k)\<in>lru_pairs ?L. key_ok k" using r1(6) by (auto simp: lru_pairs_remove)
  obtain z2 ks2 where r2: "record_response N conf1 r1 (w_zone w1) = Some z2"
    "zone_rel N ring map_ok z2 (lru_record_all key1 tags1 ?L)"
    "map_of (lru_record_all key1 tags1 ?L) tag = Some ks2" "\<forall>k\<in>set ks2. key_ok k"
    by (rule recorded_view [OF assms(2) w1(2) ok assms(13-15,8)])
  have "lru_ok ?L" by (rule ngx_env.zone_rel_ok [OF ngx_room.axioms(1) [OF assms(2)] w1(2)])
  note pairs = subsetD [OF lru_record_all_pairs [OF this, of key1 tags1]]
  have "k = key1" if "k \<in> set ks2" for k
  proof -
    have "(tag, k) \<in> lru_pairs (lru_record_all key1 tags1 ?L)" using r2(3) that by (simp add: lru_pairs_iff)
    then show ?thesis using pairs by (force simp: lru_pairs_remove)
  qed
  then have new: "cache_file dirs p key \<notin> cache_file dirs p ` set ks2"
    using assms(6,14,16) cache_file_inj by blast
  have "\<exists>ans3 w3. purge_handler N S e conf r w2 = Some (ans3, w3)
      \<and> carries S MAX_HEADER_BLOCK (header xmcf) (files (w_os w3)) tag (cache_file dirs p key)"
    if w2: "w_zone w2 = z2" "purge_setup conf w2 xmcf xlcf i fc2" "cache_at fc2 p" "cache_ok (fc_tree fc2) t2"
      "carries S MAX_HEADER_BLOCK (header xmcf) (files (w_os w2)) tag (cache_file dirs p key)" for w2 fc2 t2
  proof -
    have "zone_rel N ring map_ok (w_zone w2) (lru_record_all key1 tags1 ?L)" using r2(2) w2(1) by simp
    from site_live.purge_hit_leaves [OF assms(1,9) w2(2,3) this w2(4) r2(3,4) new, of e]
    obtain ans3 w3 where "purge_handler N S e conf r w2 = Some (ans3, w3)"
      "files (w_os w3) (cache_file dirs p key) = files (w_os w2) (cache_file dirs p key)" by blast
    then show ?thesis using w2(5) unfolding carries_def entry_at_def by metis
  qed
  then show ?thesis using r1(1) w1(1,3) r2(1) by blast
qed

text \<open>A second response with the tag, under key 2; the first one's file is stored only after the
  purge.\<close>

definition second_request :: request where
  "second_request = demo_request\<lparr>r_cache := Some \<lparr>cr_node = True, cr_file = True, cr_key = demo_key 2\<rparr>\<rparr>"

theorem purge_before_store_loses_tag_witness:
  "\<exists>z2 ans w3. purge_handler ref_room disk_os Little demo_conf demo_request (demo_world z2) = Some (ans, w3)
    \<and> carries disk_os MAX_HEADER_BLOCK (bytes_of ''xkey'') (disk_files (w_os w3)) demo_tag demo_file"
proof -
  have *: "zone_rel ref_room dll_ring ref_map_ok (w_zone (demo_world demo_zone)) []"
    "cache_ok (fc_tree demo_cache) (Node Leaf 1 Leaf)" "tag_accepted demo_tag"
    "response_tags demo_conf second_request = Some (demo_key 2, [demo_tag])" "demo_key 2 \<noteq> demo_key 1"
    "header demo_main = bytes_of ''xkey''" "w_zone (demo_world z) = z" "w_os (demo_world z) = demo_disk" for z
    using demo_zone_rel demo_tree_ok demo_tag_ok demo_tags
    by (simp_all add: demo_world_def demo_cache_def tag_accepted_def demo_key_def demo_main_def
        second_request_def response_tags_def response_key_def demo_request_def demo_conf_def)
  have "disk_files demo_disk demo_file = Some demo_content" by (simp add: disk_files_def demo_disk_def)
  then have "carries disk_os MAX_HEADER_BLOCK (header demo_main) (disk_files demo_disk) demo_tag demo_file"
    unfolding carries_def *(6) by (subst demo_entry) simp_all
  then have c: "carries disk_os MAX_HEADER_BLOCK (header demo_main) (disk_files (w_os (demo_world z)))
      demo_tag (cache_file disk_dirs demo_path (demo_key 1))" for z
    by (simp add: *(8) demo_file_def)
  have keys: "\<forall>(t, k)\<in>lru_pairs []. key_ok k" "demo_tag \<in> set [demo_tag]" by simp_all
  obtain z2 where "\<forall>w2 fc2 t2. w_zone w2 = z2 \<and> purge_setup demo_conf w2 demo_main demo_loc 1 fc2
        \<and> cache_at fc2 demo_path \<and> cache_ok (fc_tree fc2) t2
        \<and> carries disk_os MAX_HEADER_BLOCK (header demo_main) (disk_files (w_os w2)) demo_tag
            (cache_file disk_dirs demo_path (demo_key 1)) \<longrightarrow>
      (\<exists>ans3 w3. purge_handler ref_room disk_os Little demo_conf demo_request w2 = Some (ans3, w3)
        \<and> carries disk_os MAX_HEADER_BLOCK (header demo_main) (disk_files (w_os w3)) demo_tag
            (cache_file disk_dirs demo_path (demo_key 1)))"
    using purge_before_store_loses_tag [OF live.site_live_axioms ref_room_env *(1) keys(1) demo_tags demo_key_ok
        keys(2) *(3) demo_purge demo_setup demo_path_ok *(2,4) demo_key_ok keys(2) *(5), of Little] by blast
  from this [rule_format, OF conjI [OF *(7) conjI [OF demo_setup conjI [OF demo_path_ok conjI [OF *(2) c]]]]]
  show ?thesis by (simp only: *(6) demo_file_def) blast
qed

text \<open>C33: The index does not say which cache a key is in. Where two purge locations serve two
  caches, a purge at one takes the tag from the index and leaves what the other cache holds
  under it; a purge for the tag at the other, with its fallback off, is then a 404, and the
  file and the node it was meant for stay.\<close>

theorem purge_forgets_other_cache:
  assumes "site_live N ring map_ok S files dirs" "purge_request r tag"
    and "purge_setup conf w xmcf xlcf i fc" "cache_at fc p" "cache_ok (fc_tree fc) t"
    and "purge_setup conf' w xmcf xlcf' j fc'" "j \<noteq> i" "fallback xlcf' = 0"
    and "zone_rel N ring map_ok (w_zone w) L" "map_of L tag = Some ks" "\<forall>k\<in>set ks. key_ok k"
    and "key \<in> set ks" "cache_file dirs p' key \<noteq> cache_file dirs p key"
  shows "\<exists>ans w1 z2. purge_handler N S e conf r w = Some (ans, w1)
    \<and> purge_handler N S e conf' r w1 =
        Some ((HTTP_NOT_FOUND, log_calls [DiscardRequestBody] r), w1\<lparr>w_zone := z2\<rparr>)
    \<and> files (w_os w1) (cache_file dirs p' key) = files (w_os w) (cache_file dirs p' key)
    \<and> w_caches w1 j = w_caches w j"
proof -
  obtain ans w1 fc1 where w1: "purge_handler N S e conf r w = Some (ans, w1)"
    "zone_rel N ring map_ok (w_zone w1) (lru_remove tag L)" "w_caches w1 = (w_caches w)(i \<mapsto> fc1)"
    "files (w_os w1) = (\<lambda>x. if x \<in> cache_file dirs p ` set ks then None else files (w_os w) x)"
    using site_live.purge_hit_exact [OF assms(1-4,9,5,10,11), of e] by blast
  have "cache_file dirs p' key \<notin> cache_file dirs p ` set ks"
  proof
    assume "cache_file dirs p' key \<in> cache_file dirs p ` set ks"
    then obtain k where k: "k \<in> set ks" "cache_file dirs p' key = cache_file dirs p k" by blast
    then have "k = key" using key_from_cache_file assms(11,12) by (metis option.inject)
    then show False using k(2) assms(13) by simp
  qed
  moreover have set: "purge_setup conf' w1 xmcf xlcf' j fc'"
    using assms(6,7) w1(3) by (simp add: purge_setup_def)
  moreover have gone: "map_of (lru_remove tag L) tag = None" by (simp add: map_of_remove)
  ultimately show ?thesis
    using w1(1,3,4) assms(7)
      site_env.purge_miss_off [OF site_live.axioms(1) [OF assms(1)] assms(2) set w1(2) gone assms(8), of e]
    by auto
qed

text \<open>A second cache beside the one that holds the tagged file: the first purge is at the second.\<close>

definition other_cache :: file_cache where
  "other_cache = demo_cache\<lparr>fc_path := Some (demo_path\<lparr>p_name := bytes_of ''/d''\<rparr>)\<rparr>"

definition two_caches :: "(cells, ref_map, dll, disk) world" where
  "two_caches = (demo_world tagged_zone)\<lparr>w_caches := [1 \<mapsto> demo_cache, 2 \<mapsto> other_cache]\<rparr>"

theorem purge_forgets_other_cache_witness:
  "\<exists>ans w1 a2 w2.
     purge_handler ref_room disk_os Little (demo_conf\<lparr>location_conf := Some (demo_loc\<lparr>cache_zone := Some 2\<rparr>)\<rparr>)
       demo_request two_caches = Some (ans, w1)
     \<and> purge_handler ref_room disk_os Little (demo_conf\<lparr>location_conf := Some (demo_loc\<lparr>fallback := 0\<rparr>)\<rparr>)
       demo_request w1 = Some ((HTTP_NOT_FOUND, a2), w2)
     \<and> disk_files (w_os w2) demo_file = Some demo_content"
proof -
  have s: "purge_setup (demo_conf\<lparr>location_conf := Some (demo_loc\<lparr>cache_zone := Some 2\<rparr>)\<rparr>) two_caches
      demo_main (demo_loc\<lparr>cache_zone := Some 2\<rparr>) 2 other_cache"
    "purge_setup (demo_conf\<lparr>location_conf := Some (demo_loc\<lparr>fallback := 0\<rparr>)\<rparr>) two_caches
      demo_main (demo_loc\<lparr>fallback := 0\<rparr>) 1 demo_cache"
    "cache_at other_cache (demo_path\<lparr>p_name := bytes_of ''/d''\<rparr>)"
    "cache_ok (fc_tree other_cache) (Node Leaf 1 Leaf)" "(1 :: nat) \<noteq> 2"
    "fallback (demo_loc\<lparr>fallback := 0\<rparr>) = 0"
    "zone_rel ref_room dll_ring ref_map_ok (w_zone two_caches) [(demo_tag, [demo_key 1])]"
    "map_of [(demo_tag, [demo_key 1])] demo_tag = Some [demo_key 1]" "demo_key 1 \<in> set [demo_key 1]"
    "\<forall>k\<in>set [demo_key 1]. key_ok k"
    using demo_tree_ok tagged_zone_rel
    by (simp_all add: purge_setup_def demo_conf_def two_caches_def demo_world_def demo_main_def demo_loc_def
        other_cache_def cache_at_def demo_cache_def)
  have d: "cache_file disk_dirs demo_path (demo_key 1)
      \<noteq> cache_file disk_dirs (demo_path\<lparr>p_name := bytes_of ''/d''\<rparr>) (demo_key 1)"
    by (simp add: cache_file_def demo_path_def)
  have "disk_files (w_os two_caches) demo_file = Some demo_content"
    by (simp add: two_caches_def demo_world_def disk_files_def demo_disk_def)
  then show ?thesis
    using purge_forgets_other_cache [OF live.site_live_axioms demo_purge s(1,3,4,2,5,6,7,8,10,9) d, of Little]
    by (auto simp: demo_file_def)
qed

text \<open>C17: A scan pays for the next purge. While the zone has room, a purge that had to scan leaves the
  index knowing every file of any other tag with no more keys than the cap, when files lie
  where NGINX puts them: the purge of such a tag, when a file still carries it, is answered from
  the index and leaves no file that carries it.\<close>

theorem purge_after_scan_from_memory:
  assumes "site_live N ring map_ok S files dirs" "ngx_room N ring map_ok"
    and "purge_request r tag" "purge_setup conf w xmcf xlcf i fc" "cache_at fc p"
    and "zone_rel N ring map_ok (w_zone w) L" "cache_ok (fc_tree fc) t"
    and "map_of L tag = None" "fallback xlcf \<noteq> 0"
    and "finite B" "card B \<le> MAX_KEYS_PER_TAG" "\<forall>k\<in>B. key_ok k" "tag_accepted u"
    and "\<forall>k. (u, k) \<in> lru_pairs L \<union> file_pairs S (header xmcf) (files (w_os w)) \<longrightarrow> k \<in> B"
    and "\<forall>x k. in_dir (p_name p) x \<and> files (w_os w) x \<noteq> None \<and> key_from_path x = Some k
      \<longrightarrow> x = cache_file dirs p k"
    and "purge_request r2 u" "in_dir (p_name p) x"
    and "carries S MAX_HEADER_BLOCK (header xmcf) (files (w_os w)) u x"
    and "\<not> carries S MAX_HEADER_BLOCK (header xmcf) (files (w_os w)) tag x"
  shows "\<exists>ans w' rc r' w2. purge_handler N S e conf r w = Some (ans, w')
    \<and> purge_handler N S e conf r2 w' = Some ((rc, r'), w2)
    \<and> AddHeaderOut (bytes_of ''x-purge-source'') (bytes_of ''index'') \<in> set (r_calls r')
    \<and> purged_clean S (header xmcf) p (files (w_os w2)) u"
  using assms by (intro site_live.purge_after_scan)

definition other_request :: request where
  "other_request = demo_request\<lparr>r_headers_in := [(bytes_of ''xkey-purge'', bytes_of ''old'')]\<rparr>"

theorem purge_after_scan_from_memory_witness:
  "\<exists>ans w' rc r' w2. purge_handler ref_room disk_os Little demo_conf other_request (demo_world demo_zone) = Some (ans, w')
    \<and> purge_handler ref_room disk_os Little demo_conf demo_request w' = Some ((rc, r'), w2)
    \<and> AddHeaderOut (bytes_of ''x-purge-source'') (bytes_of ''index'') \<in> set (r_calls r')
    \<and> purged_clean disk_os (header demo_main) demo_path (disk_files (w_os w2)) demo_tag"
proof -
  let ?w = "demo_world demo_zone" and ?F = "disk_files demo_disk"
  have F: "disk_files (w_os ?w) = ?F" "?F demo_file = Some demo_content" "\<And>x. ?F x \<noteq> None \<Longrightarrow> x = demo_file"
    by (auto simp: demo_world_def disk_files_def demo_disk_def split: if_splits)
  have ent: "entry_at disk_os MAX_HEADER_BLOCK (header demo_main) ?F demo_file = Some (demo_key 1, [demo_tag])"
    using demo_entry [of ?F, OF F(2)] by (simp add: demo_main_def)
  have old: "purge_request other_request (bytes_of ''old'')"
    by (simp add: other_request_def purge_request_def demo_request_def is_purge_def PURGE_METHOD_def purge_tag_def
        PURGE_HEADER_def eq_ignore_ascii_case_def to_ascii_lowercase_def NGX_OK_def MAX_TAG_LEN_def)
  have rel: "zone_rel ref_room dll_ring ref_map_ok (w_zone ?w) []"
    "cache_ok (fc_tree demo_cache) (Node Leaf 1 Leaf)" "fallback demo_loc \<noteq> 0" "tag_accepted demo_tag"
    using demo_zone_rel demo_tree_ok demo_tag_ok
    by (simp_all add: demo_world_def demo_cache_def demo_loc_def tag_accepted_def)
  have pairs: "k = demo_key 1" if mem: "(t, k) \<in> file_pairs disk_os (header demo_main) ?F" for t k
  proof -
    obtain x ts where x: "entry_at disk_os MAX_HEADER_BLOCK (header demo_main) ?F x = Some (k, ts)"
      using mem by (auto simp: file_pairs_def)
    then have "?F x \<noteq> None" by (auto simp: entry_at_def split: option.splits)
    then have "x = demo_file" by (rule F(3))
    then show ?thesis using x ent by simp
  qed
  have place: "x = cache_file disk_dirs demo_path k" if "?F x \<noteq> None" "key_from_path x = Some k" for x k
    using that F(3) demo_file_key by (auto simp: demo_file_def)
  have tags: "demo_tag \<noteq> bytes_of ''old''" by (simp add: demo_tag_def)
  have cap: "card {demo_key 1} \<le> MAX_KEYS_PER_TAG" by (simp add: MAX_KEYS_PER_TAG_def)
  show ?thesis
    by (rule purge_after_scan_from_memory [OF live.site_live_axioms ref_room_env old demo_setup demo_path_ok
          rel(1,2) _ rel(3) _ cap _ rel(4) _ _ demo_purge demo_file_in_dir])
      (use pairs place ent tags in \<open>auto simp: F carries_def\<close>)
qed

text \<open>C19: A walk over any list of files, whatever system calls fail, returns; it removes only files
  that carry the tag, clears only nodes of their keys, and adds to the index only tags of
  surviving files under their own key.\<close>

theorem scan_is_sound:
  assumes "site_env N ring map_ok S files dirs"
    and "zone_rel N ring map_ok (s_zone st) L \<and> cache_ok (s_tree st) t"
    and "\<forall>x\<in>set ns. 0 \<notin> set x"
  shows "\<exists>sc' st' L' n. walk_files N S e ns (sc, st) = Some (sc', st')
    \<and> (zone_rel N ring map_ok (s_zone st') L' \<and> cache_ok (s_tree st') t)
    \<and> scan_sound e (entry_at S (length (sc_buf sc)) (sc_header sc) (files (s_os st))) (sc_tag sc) ns
        (files (s_os st), live_keys (s_tree st) t, lru_pairs L)
        (files (s_os st'), live_keys (s_tree st') t, lru_pairs L')
    \<and> scan_frame sc sc' (length ns) n"
  using assms by (rule site_env.walk_files_sound)

theorem scan_is_sound_witness:
  "\<exists>sc' st'. walk_files ref_room disk_os Little [demo_file]
      (init_scan demo_tag demo_main [], \<lparr>s_zone = demo_zone, s_tree = demo_tree, s_os = demo_disk\<rparr>) =
      Some (sc', st') \<and> sc_scanned sc' = 1"
proof -
  have "0 \<notin> set demo_file" using demo_file_in_dir by (simp add: in_dir_def)
  then show ?thesis
    using scan_is_sound [OF live.site_env_axioms,
        of "\<lparr>s_zone = demo_zone, s_tree = demo_tree, s_os = demo_disk\<rparr>" "[]" "Node Leaf 1 Leaf"
           "[demo_file]" Little "init_scan demo_tag demo_main []"] demo_zone_rel demo_tree_ok
    by (force simp: scan_frame_def init_scan_def)
qed

text \<open>C35: A request that is not a \<open>PURGE\<close> gets 405 and the \<open>Allow\<close> header, one without a tag or with
  a tag over \<open>MAX_TAG_LEN\<close> gets 400, one whose body cannot be discarded that call's code; none
  of them changes index, caches or files.\<close>

theorem purge_refuses:
  "(if \<not> is_purge r
    then purge_handler N S e conf r w =
      Some ((HTTP_NOT_ALLOWED, log_calls [AddHeaderOut (bytes_of ''allow'') (bytes_of ''PURGE'')] r), w)
    else if r_discard_rc r \<noteq> NGX_OK
    then purge_handler N S e conf r w = Some ((r_discard_rc r, log_calls [DiscardRequestBody] r), w)
    else if \<nexists>tag. purge_tag r = Some tag \<and> length tag \<le> MAX_TAG_LEN
    then purge_handler N S e conf r w = Some ((HTTP_BAD_REQUEST, log_calls [DiscardRequestBody] r), w)
    else purge_request r (the (purge_tag r)))"
  using purge_handler_method [of r N S e conf w] purge_handler_discard [of r N S e conf w]
    purge_handler_bad [of r N S e conf w]
  by (auto simp: purge_request_def not_le)

text \<open>The tag of a purge is the first nonempty \<open>xkey-purge\<close> header, in any case.\<close>

lemma purge_tag_spec:
  "purge_tag r =
     (case filter (\<lambda>(n, v). eq_ignore_ascii_case n PURGE_HEADER \<and> v \<noteq> []) (r_headers_in r) of
        [] \<Rightarrow> None | h # hs \<Rightarrow> Some (snd h))"
proof -
  have "purge_tag_loop hs =
     (case filter (\<lambda>(n, v). eq_ignore_ascii_case n PURGE_HEADER \<and> v \<noteq> []) hs of
        [] \<Rightarrow> None | h # hs \<Rightarrow> Some (snd h))" for hs
    by (induction hs rule: purge_tag_loop.induct) auto
  then show ?thesis by (simp only: purge_tag_def)
qed

text \<open>C36: With the fallback off, a tag the index does not have is answered 404 without a scan:
  caches and files stay as they were.\<close>

theorem purge_without_fallback:
  assumes "site_env N ring map_ok S files dirs"
    and "purge_request r tag" "purge_setup conf w xmcf xlcf i fc"
    and "zone_rel N ring map_ok (w_zone w) L" "map_of L tag = None" "fallback xlcf = 0"
  shows "\<exists>z'. purge_handler N S e conf r w =
      Some ((HTTP_NOT_FOUND, log_calls [DiscardRequestBody] r), w\<lparr>w_zone := z'\<rparr>)
    \<and> zone_rel N ring map_ok z' L"
  using assms by (rule site_env.purge_miss_off)

theorem purge_without_fallback_witness:
  "\<exists>r' w'. purge_handler ref_room disk_os Little
      (demo_conf\<lparr>location_conf := Some (demo_loc\<lparr>fallback := 0\<rparr>)\<rparr>) demo_request (demo_world demo_zone) =
      Some ((HTTP_NOT_FOUND, r'), w')"
proof -
  let ?c = "demo_conf\<lparr>location_conf := Some (demo_loc\<lparr>fallback := 0\<rparr>)\<rparr>"
  have "purge_setup ?c (demo_world demo_zone) demo_main (demo_loc\<lparr>fallback := 0\<rparr>) 1 demo_cache"
    by (simp add: purge_setup_def demo_conf_def demo_world_def demo_main_def demo_loc_def)
  moreover have "zone_rel ref_room dll_ring ref_map_ok (w_zone (demo_world demo_zone)) []"
    using demo_zone_rel by (simp add: demo_world_def)
  ultimately show ?thesis
    using purge_without_fallback [OF live.site_env_axioms demo_purge, of ?c "demo_world demo_zone"
        demo_main "demo_loc\<lparr>fallback := 0\<rparr>" 1 demo_cache "[]" Little] by auto
qed

section \<open>Recording\<close>

text \<open>C20: While the zone has room, recording a response leaves the index as recording its key
  under each of its acceptable tags in turn: every one of them has the key, and tags the
  response does not carry keep their keys.\<close>

theorem record_is_complete:
  assumes "ngx_room N ring map_ok" "zone_rel N ring map_ok z L"
    and "response_tags conf r = Some (key, tags)"
  shows "\<exists>z'. record_response N conf r z = Some z'
    \<and> zone_rel N ring map_ok z' (lru_record_all key tags L)
    \<and> list_all (\<lambda>t. if tag_accepted t then (t, key) \<in> lru_pairs (lru_record_all key tags L) else True) tags
    \<and> (\<forall>t. t \<in> set tags \<or> map_of (lru_record_all key tags L) t = map_of L t)"
proof -
  have L: "lru_ok L" by (rule ngx_env.zone_rel_ok [OF ngx_room.axioms(1) [OF assms(1)] assms(2)])
  have "(t, key) \<in> lru_pairs (lru_record_all key tags L)" if "t \<in> set tags" "tag_accepted t" for t
    using lru_record_all_mem [OF L that] by (simp add: lru_pairs_iff)
  then have "list_all (\<lambda>t. if tag_accepted t then (t, key) \<in> lru_pairs (lru_record_all key tags L)
      else True) tags" by (simp add: list_all_iff)
  moreover have "t \<in> set tags \<or> map_of (lru_record_all key tags L) t = map_of L t" for t
    using lru_record_all_other [OF L] by blast
  ultimately show ?thesis using ngx_room.record_response_room [OF assms] by blast
qed

theorem record_is_complete_witness:
  "\<exists>z'. record_response ref_room demo_conf demo_request demo_zone = Some z'
    \<and> zone_rel ref_room dll_ring ref_map_ok z' [(demo_tag, [demo_key 1])]"
  using record_is_complete [OF ref_room_env demo_zone_rel demo_tags] demo_tag_ok
  by (auto simp: tag_accepted_def lru_record_def lru_touch_def)

text \<open>C14: Recording keeps the index covering a tag, which is what a purge from the index needs: when it
  knew every file that carries the tag, the response is recorded with room and without
  shedding a key of the tag, and NGINX then stores the response's file, which carries no tag
  but the response's own, the index knows every file that carries the tag again.\<close>

theorem recording_keeps_cover:
  assumes "ngx_room N ring map_ok" "zone_rel N ring map_ok z L"
    and "response_tags conf r = Some (key, tags)" "\<not> lru_sheds tag key L"
    and "index_covers S dirs hdr p F tag L"
    and "\<forall>x. x = cache_file dirs p key \<or> F' x = F x"
    and "carries S MAX_HEADER_BLOCK hdr F' tag (cache_file dirs p key) \<longrightarrow> tag \<in> set tags \<and> tag_accepted tag"
  shows "\<exists>z' L'. record_response N conf r z = Some z' \<and> zone_rel N ring map_ok z' L'
    \<and> index_covers S dirs hdr p F' tag L'"
proof -
  let ?L = "lru_record_all key tags L"
  have L: "lru_ok L" by (rule ngx_env.zone_rel_ok [OF ngx_room.axioms(1) [OF assms(1)] assms(2)])
  have "\<exists>k. (tag, k) \<in> lru_pairs ?L \<and> x = cache_file dirs p k"
    if x: "in_dir (p_name p) x" "carries S MAX_HEADER_BLOCK hdr F' tag x" for x
  proof (cases "x = cache_file dirs p key")
    case True
    then show ?thesis
      using assms(7) x(2) lru_record_all_mem [OF L, of tag tags key] by (auto simp: lru_pairs_iff)
  next
    case False
    then have "F' x = F x" using assms(6) by blast
    then have "carries S MAX_HEADER_BLOCK hdr F tag x"
      using x(2) carries_cong [of F' x F S MAX_HEADER_BLOCK hdr tag] by simp
    then obtain k where "(tag, k) \<in> lru_pairs L" "x = cache_file dirs p k"
      using assms(5) x(1) unfolding index_covers_def by blast
    then show ?thesis using lru_record_all_grows [OF L assms(4)] by blast
  qed
  then have "index_covers S dirs hdr p F' tag ?L" by (simp add: index_covers_def)
  then show ?thesis using ngx_room.record_response_room [OF assms(1-3)] by blast
qed

theorem recording_keeps_cover_witness:
  "\<exists>z' L'. record_response ref_room demo_conf demo_request demo_zone = Some z'
    \<and> zone_rel ref_room dll_ring ref_map_ok z' L'
    \<and> index_covers disk_os disk_dirs (header demo_main) demo_path (disk_files demo_disk) demo_tag L'"
proof -
  have "index_covers disk_os disk_dirs (header demo_main) demo_path Map.empty demo_tag []"
    by (auto simp: index_covers_def dest: carries_file)
  moreover have "disk_files demo_disk x = None" if "x \<noteq> cache_file disk_dirs demo_path (demo_key 1)" for x
    using that by (simp add: disk_files_def demo_disk_def demo_file_def)
  ultimately show ?thesis
    using recording_keeps_cover [OF ref_room_env demo_zone_rel demo_tags, of demo_tag disk_os disk_dirs
        "header demo_main" demo_path Map.empty "disk_files demo_disk"] demo_tag_ok
    by (fastforce simp: lru_sheds_def tag_accepted_def)
qed

text \<open>C21: Whatever allocations fail, recording a response returns and adds to the index only the
  response's own key under the response's own tags; a response that is not recorded leaves the
  zone as it was.\<close>

theorem record_adds_only:
  assumes "ngx_env N ring map_ok" "zone_rel N ring map_ok z L"
  shows "\<exists>z' L'. record_response N conf r z = Some z' \<and> zone_rel N ring map_ok z' L'
    \<and> lru_pairs L' \<subseteq> lru_pairs L \<union> response_pairs conf r
    \<and> (response_tags conf r = None \<longrightarrow> z' = z)"
  using assms by (rule ngx_env.record_response_rel)

theorem record_adds_only_witness:
  "\<exists>z' L'. record_response ref_ngx demo_conf demo_request (ref_zone 3) = Some z'
    \<and> zone_rel ref_ngx dll_ring ref_map_ok z' L' \<and> lru_pairs L' \<subseteq> {(demo_tag, demo_key 1)}"
  using record_adds_only [OF ref.ngx_env_axioms ref_zone_rel [of 3], of demo_conf demo_request]
  by (auto simp: response_pairs_def demo_tags)

text \<open>Only the response of a main request that the upstream made cacheable, and whose cache
  entry has a node or an open file, is recorded; any other passes by without a look at the
  zone.\<close>

lemma record_only_cacheable:
  "(r_main r \<and> r_upstream r = Some True
      \<and> (\<exists>c. r_cache r = Some c \<and> (cr_node c \<or> cr_file c) \<and> response_key r = Some (cr_key c)))
   \<or> record_response N conf r z = Some z"
proof (cases "response_key r")
  case None
  then show ?thesis using record_response_other [of r conf N z] by simp
next
  case (Some key)
  then obtain c where "r_upstream r = Some True" "r_cache r = Some c" "cr_node c \<or> cr_file c"
    "cr_key c = key" using response_key_Some [of r key] by blast
  then show ?thesis using Some record_response_other [of r conf N z] by blast
qed

text \<open>The header filter runs what comes after it in the chain with its return code, recorded
  or not, and installing it keeps what was at the head of the chain behind it.\<close>

lemma filter_passes_on:
  "(case record_response N conf r z of
      None \<Rightarrow> header_filter N conf follow r z = None
    | Some z' \<Rightarrow> header_filter N conf follow r z =
        Some ((case follow of Some f \<Rightarrow> f r | None \<Rightarrow> NGX_ERROR), z'))
   \<and> next_header_filter (snd (install_filter g c)) = top_header_filter c
   \<and> top_header_filter (snd (install_filter g c)) = Some g"
  by (simp add: header_filter_def install_filter_def split: option.split)

section \<open>Status and configuration\<close>

text \<open>C38: The status endpoint answers a GET with the JSON document of a snapshot whose counters
  are the numbers of tags and keys the index holds and what it evicted and dropped; the index
  stays as it was.\<close>

theorem status_reports_index:
  assumes "ngx_env N ring map_ok" "zone_rel N ring map_ok z L"
    and "main_conf conf = Some xmcf" "shm_zone xmcf \<noteq> None"
    and "r_method r = GET" "r_discard_rc r = NGX_OK" "r_send_rc r = NGX_OK" "\<not> r_header_only r"
    and "try_reserve V 512 = Some cap" "512 \<le> cap" "create_buffer V"
  shows "\<exists>s. status_handler N V conf r z =
      ((r_output_rc r, log_calls (status_calls (snapshot_doc s)
          @ [OutputFilter (snapshot_doc s) (r_main r)]) r), z)
    \<and> sn_tags s = of_nat (length L) \<and> sn_keys s = of_nat (key_count L)
    \<and> \<lparr>evicted = sn_evictions s, dropped = sn_key_drops s\<rparr> = zone_pressure z"
  using assms by (rule ngx_env.status_handler_ok)

theorem status_reports_index_witness:
  "\<exists>s r'. status_handler ref_room
      \<lparr>shm_size = 8192, pool_start = 0, pool_end = 8192, pool_pfree = 1, ngx_pagesize = 4096,
       try_reserve = (\<lambda>n. Some n), create_buffer = True\<rparr>
      demo_conf (demo_request\<lparr>r_method := GET\<rparr>) tagged_zone = ((0, r'), tagged_zone)
    \<and> OutputFilter (snapshot_doc s) True \<in> set (r_calls r') \<and> sn_tags s = 1 \<and> sn_keys s = 1"
  using status_reports_index [OF room.ngx_env_axioms tagged_zone_rel, of demo_conf demo_main
      "demo_request\<lparr>r_method := GET\<rparr>" "\<lparr>shm_size = 8192, pool_start = 0, pool_end = 8192,
        pool_pfree = 1, ngx_pagesize = 4096, try_reserve = (\<lambda>n. Some n), create_buffer = True\<rparr>" 512]
  by (force simp: demo_conf_def demo_main_def demo_request_def NGX_OK_def key_count_def)

text \<open>C39: The document fits in the 512 bytes reserved for it whatever the counters are, so
  writing it never fails, and it is valid UTF-8, so sending it never fails for its text.\<close>

theorem status_document_fits:
  "write_within 512 (snapshot_doc s) = Some (snapshot_doc s) \<and> utf8_valid (snapshot_doc s)"
  using snapshot_doc_fits [of s] snapshot_doc_utf8 [of s] by (simp add: write_within_def)

text \<open>The document loses nothing: two snapshots with the same document are the same.\<close>

lemma status_document_injective: "snapshot_doc s = snapshot_doc s' \<longleftrightarrow> s = s'"
  by (auto dest: snapshot_doc_inj)

text \<open>Merging location configurations along nested blocks, the fallback flag is the one of the
  innermost block that sets it, and on when none does; the cache zone is never inherited.\<close>

lemma merge_innermost:
  "fallback (merge_path (confs @ [c])) =
     (let xs = filter (\<lambda>x. x \<noteq> NGX_CONF_UNSET) (map fallback (confs @ [c]))
      in if xs = [] then 1 else last xs)
   \<and> cache_zone (merge_path (confs @ [c])) = cache_zone c"
  using merge_path_fallback [of "confs @ [c]"] by (simp add: merge_path_snoc)

text \<open>\<open>xkey_zone name:size\<close> and \<open>xkey_zone name size\<close> name the same zone and size; the first
  form is split at its first colon, and refused without one.\<close>

lemma zone_spellings:
  "(58 \<in> set name \<or> zone_args [d, name @ [58] @ sz] = zone_args [d, name, sz])
   \<and> (case zone_args [d, arg] of
        None \<Rightarrow> 58 \<notin> set arg
      | Some (n, m) \<Rightarrow> arg = n @ [58] @ m \<and> 58 \<notin> set n)"
proof (cases "zone_args [d, arg]")
  case None
  then have "58 \<notin> set arg" by (auto simp: zone_args_def split: option.splits)
  then show ?thesis using None zone_args_colon [of name d sz] by auto
next
  case (Some nm)
  then show ?thesis using zone_args_colon [of name d sz] zone_args_split [of d arg] by (cases nm) auto
qed

text \<open>The zone directive runs once: it succeeds on a configuration without a zone only, and
  then the zone it names has this module's init handler and the configuration as its data.\<close>

lemma xkey_zone_configures:
  "(case xkey_zone E args (xmcf, cy) of
      Some (True, xmcf', cy') \<Rightarrow>
        shm_zone xmcf = None \<and> header xmcf' = header xmcf
        \<and> (case shm_zone xmcf' of
             None \<Rightarrow> False
           | Some z \<Rightarrow>
               (case cy' z of
                  None \<Rightarrow> False
                | Some zone \<Rightarrow> sz_init zone = Some ZoneInit \<and> sz_data zone))
    | Some (False, xmcf', cy') \<Rightarrow> header xmcf' = header xmcf \<and> shm_zone xmcf' = shm_zone xmcf
    | None \<Rightarrow> shm_zone xmcf = None)"
  by (auto simp: xkey_zone_def Let_def split: option.splits prod.splits if_splits bool.splits)

text \<open>Running any list of directives through the module's table never panics, whatever the
  words are: the table admits only argument counts the handlers can index. A location that
  ends with the purge handler has a cache zone.\<close>

lemma directives_never_panic:
  assumes "conf_laws E"
  shows "case run_directives E f ds (conf_start cy) of
      None \<Rightarrow> False
    | Some (ok, s) \<Rightarrow> if ok then handler_ok s else True"
proof -
  obtain ok s where r: "run_directives E f ds (conf_start cy) = Some (ok, s)"
    using conf_laws.run_directives_total [OF assms, of f ds "conf_start cy"] by auto
  have "handler_ok (conf_start cy)" by (simp add: handler_ok_def conf_start_def)
  then have "handler_ok s" if ok using run_directives_handler [of E f ds "conf_start cy" s] r that by simp
  then show ?thesis using r by simp
qed

end
